theory Spec2Isabelle
  imports Complex_Main "HOL-Library.AList"
begin

section \<open>Data model\<close>

text \<open>
  A shallow embedding of \<^verbatim>\<open>tec_util/core.py\<close>. Python exceptions are values of
  \<open>error\<close>; a function that may raise returns \<open>error + 'a\<close>. The spec's
  \<^verbatim>\<open>NoMatchError\<close>, \<^verbatim>\<open>NameCollisionError\<close>, \<^verbatim>\<open>UnknownVariableError\<close> and
  \<^verbatim>\<open>UnsupportedZoneError\<close> are the \<^verbatim>\<open>AssertionError\<close> of the corresponding
  \<^verbatim>\<open>assert\<close> statement, and its \<^verbatim>\<open>CountMismatchError\<close> is the \<^verbatim>\<open>RuntimeError\<close>
  raised by \<^verbatim>\<open>difference_datasets\<close>.
\<close>

datatype error =
    AssertionError string
  | NameError string
  | TypeError string
  | RuntimeError string
  | ValueError string
  | LookupError string
  | IndexError

text \<open>A variable or zone object as the selector sees it: its name and its index.\<close>

record entity =
  name :: string
  index :: nat

text \<open>
  A zone of the grid library: \<open>ordered\<close> says whether it is an \<^verbatim>\<open>OrderedZone\<close>;
  \<open>rank\<close> and \<open>dimensions\<close> are the attributes the library reports for it.
\<close>

record zone =
  zone_name :: string
  ordered :: bool
  rank :: nat
  dimensions :: "nat list"

text \<open>
  A dataset: the variable names (a variable's index is its position), the zones (likewise)
  and the value array of every (variable index, zone index) pair. The element type is a
  parameter: floating-point values are read as \<open>real\<close>, and as \<open>fval\<close> where
  not-a-number is written.
\<close>

record 'a dataset =
  variable_names :: "string list"
  zone_list :: "zone list"
  vals :: "nat \<Rightarrow> nat \<Rightarrow> 'a list"

datatype fval = Num real | NaN

instantiation fval :: zero
begin
definition zero_fval :: fval where "zero_fval = Num 0"
instance ..
end

definition num_variables :: "'a dataset \<Rightarrow> nat" where
  "num_variables ds = length (variable_names ds)"

definition num_points :: "zone \<Rightarrow> nat" where
  "num_points z = prod_list (dimensions z)"

text \<open>\<^verbatim>\<open>ds.add_variable(name)\<close>: the new variable takes the next index and holds zeros
  in every zone.\<close>

definition zone_points :: "'a dataset \<Rightarrow> nat \<Rightarrow> nat" where
  "zone_points ds z = (if z < length (zone_list ds) then num_points (zone_list ds ! z) else 0)"

definition add_variable :: "string \<Rightarrow> 'a::zero dataset \<Rightarrow> 'a dataset" where
  "add_variable n ds =
     ds\<lparr>variable_names := variable_names ds @ [n],
        vals := (vals ds)(num_variables ds := (\<lambda>z. replicate (zone_points ds z) 0))\<rparr>"

section \<open>The session: frames of the active page, and the log\<close>

datatype log_arg = S string | N nat

record log_record =
  level :: string
  fmt :: string
  args :: "log_arg list"

text \<open>
  \<open>frames\<close> are the frames of the active page, \<open>next_frame\<close> the identifier the next
  new frame gets, \<open>created\<close> the frames in which \<^verbatim>\<open>create_dataset\<close> was called,
  \<open>log\<close> the records that \<^verbatim>\<open>LOG.warning\<close>, \<^verbatim>\<open>LOG.error\<close> and
  \<^verbatim>\<open>LOG.exception\<close> emitted (the info and debug calls are left out), and
  \<open>logging_errors\<close> the records the logging library could not render.
\<close>

record session =
  frames :: "nat list"
  next_frame :: nat
  created :: "nat list"
  log :: "log_record list"
  logging_errors :: "log_record list"

definition add_frame :: "session \<Rightarrow> nat \<times> session" where
  "add_frame s =
     (next_frame s, s\<lparr>frames := frames s @ [next_frame s], next_frame := Suc (next_frame s)\<rparr>)"

definition delete_frame :: "nat \<Rightarrow> session \<Rightarrow> session" where
  "delete_frame f s = s\<lparr>frames := removeAll f (frames s)\<rparr>"

text \<open>
  The logging library renders a record as \<^verbatim>\<open>fmt % args\<close> when there are arguments,
  and as \<^verbatim>\<open>fmt\<close> itself when there are none. \<open>specifiers\<close> counts the conversion
  specifiers of a format (\<^verbatim>\<open>%%\<close> is a literal percent sign). When their number differs
  from the number of arguments the rendering raises \<^verbatim>\<open>TypeError\<close> inside the handler;
  the library catches it, reports a logging error on the standard error stream and emits
  no record, and the call returns normally.
\<close>

fun specifiers :: "string \<Rightarrow> nat" where
  "specifiers [] = 0"
| "specifiers [c] = (if c = CHR ''%'' then 1 else 0)"
| "specifiers (c # d # cs) =
     (if c = CHR ''%'' then (if d = CHR ''%'' then specifiers cs else Suc (specifiers cs))
      else specifiers (d # cs))"

definition LOG :: "string \<Rightarrow> string \<Rightarrow> log_arg list \<Rightarrow> session \<Rightarrow> session" where
  "LOG lv f a s =
     (if a = [] \<or> specifiers f = length a
      then s\<lparr>log := log s @ [\<lparr>level = lv, fmt = f, args = a\<rparr>]\<rparr>
      else s\<lparr>logging_errors := logging_errors s @ [\<lparr>level = lv, fmt = f, args = a\<rparr>]\<rparr>)"

text \<open>
  \<^verbatim>\<open>temp_frame\<close> is a generator under \<^verbatim>\<open>@contextmanager\<close>:
  \<^verbatim>\<open>
    page  = tecplot.active_page()
    frame = page.add_frame()
    yield frame
    page.delete_frame(frame)
  \<close>
  \<open>with_temp_frame body\<close> is \<^verbatim>\<open>with temp_frame() as frame: body\<close>. On a normal exit
  the generator is resumed and runs the line after \<^verbatim>\<open>yield\<close>. On an exception the
  context manager throws it into the generator at the \<^verbatim>\<open>yield\<close>; no
  \<^verbatim>\<open>try\<close> encloses the \<^verbatim>\<open>yield\<close>, so the exception leaves the generator
  there and the line after it does not run.
\<close>

definition with_temp_frame ::
  "(nat \<Rightarrow> session \<Rightarrow> (error + 'r) \<times> session) \<Rightarrow> session \<Rightarrow> (error + 'r) \<times> session" where
  "with_temp_frame body s =
     (let (frame, s1) = add_frame s;
          (r, s2) = body frame s1
      in case r of
           Inl e \<Rightarrow> (Inl e, s2)
         | Inr x \<Rightarrow> (Inr x, delete_frame frame s2))"

section \<open>Entity selector\<close>

text \<open>The \<^verbatim>\<open>patterns\<close> argument: \<^verbatim>\<open>None\<close>, a bare string, or a list of strings.\<close>

datatype patterns = PNone | PStr string | PList "string list"

text \<open>
  The grid library's \<^verbatim>\<open>ds.variables(pattern)\<close> and \<^verbatim>\<open>ds.zones(pattern)\<close> are
  external. They are modelled as yielding, in index order, the entities whose name a
  matcher accepts for the given argument; the matcher is a parameter of every operation.
\<close>

type_synonym matcher = "patterns \<Rightarrow> string \<Rightarrow> bool"

definition entities :: "string list \<Rightarrow> entity list" where
  "entities ns = map (\<lambda>(i, n). \<lparr>name = n, index = i\<rparr>) (enumerate 0 ns)"

definition ds_variables :: "matcher \<Rightarrow> 'a dataset \<Rightarrow> patterns \<Rightarrow> entity list" where
  "ds_variables m ds p = filter (\<lambda>v. m p (name v)) (entities (variable_names ds))"

definition ds_zones :: "matcher \<Rightarrow> 'a dataset \<Rightarrow> patterns \<Rightarrow> entity list" where
  "ds_zones m ds p = filter (\<lambda>z. m p (name z)) (entities (map zone_name (zone_list ds)))"

text \<open>Python truth value of the argument, and \<^verbatim>\<open>isinstance(patterns, str)\<close>.\<close>

fun truthy :: "patterns \<Rightarrow> bool" where
  "truthy PNone = False"
| "truthy (PStr s) = (s \<noteq> [])"
| "truthy (PList l) = (l \<noteq> [])"

fun isinstance_str :: "patterns \<Rightarrow> bool" where
  "isinstance_str (PStr s) = True"
| "isinstance_str _ = False"

fun items :: "patterns \<Rightarrow> string list" where
  "items (PList l) = l"
| "items (PStr s) = map (\<lambda>c. [c]) s"
| "items PNone = []"

text \<open>\<^verbatim>\<open>' '.join(xs)\<close> on a list of strings.\<close>

fun join :: "string list \<Rightarrow> string" where
  "join [] = []"
| "join [x] = x"
| "join (x # y # ys) = x @ '' '' @ join (y # ys)"

text \<open>
  \<^verbatim>\<open>' '.join(patterns)\<close>: \<^verbatim>\<open>None\<close> is not iterable; a string is iterated character
  by character.
\<close>

fun join_patterns :: "patterns \<Rightarrow> error + string" where
  "join_patterns PNone = Inl (TypeError ''can only join an iterable'')"
| "join_patterns p = Inr (join (items p))"

text \<open>
  The \<^verbatim>\<open>matches\<close> dictionary of the list branch: a key keeps the position of its
  first insertion and the value of its last.
\<close>

definition collect :: "(patterns \<Rightarrow> entity list) \<Rightarrow> string list \<Rightarrow> (string \<times> entity) list" where
  "collect prim ps =
     foldl (\<lambda>matches p. foldl (\<lambda>mt v. AList.update (name v) v mt) matches (prim (PStr p))) [] ps"

text \<open>
  The body shared by \<^verbatim>\<open>get_variables\<close> and \<^verbatim>\<open>get_zones\<close>, which differ in the
  primitive and in one word of the message. The message of the \<^verbatim>\<open>assert\<close> is
  evaluated only when the assertion fails.
\<close>

definition select :: "string \<Rightarrow> (patterns \<Rightarrow> entity list) \<Rightarrow> patterns \<Rightarrow> error + entity list" where
  "select what prim patterns =
     (let result =
        (if \<not> truthy patterns \<or> isinstance_str patterns then prim patterns
         else map snd (collect prim (items patterns)))
      in if result \<noteq> [] then Inr result
         else (case join_patterns patterns of
                 Inl e \<Rightarrow> Inl e
               | Inr j \<Rightarrow> Inl (AssertionError (''No '' @ what @ '' in dataset matching '' @ j))))"

definition get_variables :: "matcher \<Rightarrow> 'a dataset \<Rightarrow> patterns \<Rightarrow> error + entity list" where
  "get_variables m ds patterns = select ''variables'' (ds_variables m ds) patterns"

definition get_zones :: "matcher \<Rightarrow> 'a dataset \<Rightarrow> patterns \<Rightarrow> error + entity list" where
  "get_zones m ds patterns = select ''zones'' (ds_zones m ds) patterns"

text \<open>
  An instance of the matcher for evaluation on concrete datasets: a false argument
  (\<^verbatim>\<open>None\<close>, the empty string, the empty list) selects every name, a string selects by
  glob with \<^verbatim>\<open>*\<close> and \<^verbatim>\<open>?\<close> (character classes are not interpreted), a list
  selects what one of its strings selects.
\<close>

fun glob :: "string \<Rightarrow> string \<Rightarrow> bool" where
  "glob [] n = (n = [])"
| "glob (p # ps) [] = (p = CHR ''*'' \<and> glob ps [])"
| "glob (p # ps) (c # cs) =
     (if p = CHR ''*'' then glob ps (c # cs) \<or> glob (p # ps) cs
      else (p = CHR ''?'' \<or> p = c) \<and> glob ps cs)"

fun fnmatch :: matcher where
  "fnmatch PNone n = True"
| "fnmatch (PStr p) n = (p = [] \<or> glob p n)"
| "fnmatch (PList l) n = (l = [] \<or> list_ex (\<lambda>p. glob p n) l)"

section \<open>Writing a dataset\<close>

text \<open>
  \<^verbatim>\<open>write_dataset(filename, dataset, **kwargs)\<close> hands the dataset and the optional
  variable and zone subsets to the grid library; the written file is modelled by what
  was handed over.
\<close>

record 'a saved =
  filename :: string
  data :: "'a dataset"
  saved_variables :: "nat list option"
  saved_zones :: "entity list option"

definition write_dataset ::
  "string \<Rightarrow> 'a dataset \<Rightarrow> nat list option \<Rightarrow> entity list option \<Rightarrow> 'a saved" where
  "write_dataset f ds vs zs =
     \<lparr>filename = f, data = ds, saved_variables = vs, saved_zones = zs\<rparr>"

section \<open>extract\<close>

text \<open>
  \<^verbatim>\<open>extract\<close> (here \<open>extract_dataset\<close>) loads the input into a temporary frame and writes the selected zones
  and variables. The keyword arguments are evaluated in source order: zones first.
  The loaded dataset stands for the input file.
\<close>

definition extract_dataset ::
  "matcher \<Rightarrow> 'a dataset \<Rightarrow> string \<Rightarrow> patterns \<Rightarrow> patterns \<Rightarrow> session
     \<Rightarrow> (error + 'a saved) \<times> session" where
  "extract_dataset m ds datafile_out zone_patterns var_patterns s =
     with_temp_frame (\<lambda>frame s1.
       case get_zones m ds zone_patterns of
         Inl e \<Rightarrow> (Inl e, s1)
       | Inr zs \<Rightarrow>
          (case get_variables m ds var_patterns of
             Inl e \<Rightarrow> (Inl e, s1)
           | Inr vs \<Rightarrow> (Inr (write_dataset datafile_out ds (Some (map index vs)) (Some zs)), s1))) s"

section \<open>compute_statistics\<close>

record ZoneStats =
  stat_name :: string
  stat_max :: real
  stat_min :: real
  stat_mean :: real

text \<open>Running a fallible step over a list stops at the first error, as the exception would.\<close>

fun traverse :: "('x \<Rightarrow> error + 'y) \<Rightarrow> 'x list \<Rightarrow> error + 'y list" where
  "traverse f [] = Inr []"
| "traverse f (x # xs) =
     (case f x of
        Inl e \<Rightarrow> Inl e
      | Inr y \<Rightarrow> (case traverse f xs of Inl e \<Rightarrow> Inl e | Inr ys \<Rightarrow> Inr (y # ys)))"

text \<open>
  \<^verbatim>\<open>stats_tuple(zone.name, data.max(), data.min(), mean(data[:]))\<close>; the reductions
  raise on an empty array.
\<close>

definition zone_stat :: "string \<Rightarrow> real list \<Rightarrow> error + ZoneStats" where
  "zone_stat zn xs =
     (case xs of
        [] \<Rightarrow> Inl (ValueError ''zero-size array'')
      | x # r \<Rightarrow>
          Inr \<lparr>stat_name = zn, stat_max = foldl max x r, stat_min = foldl min x r,
               stat_mean = sum_list xs / real (length xs)\<rparr>)"

text \<open>\<^verbatim>\<open>dataset.variable(i).values(j)\<close>, an index outside the dataset raising.\<close>

definition values_at :: "'a dataset \<Rightarrow> nat \<Rightarrow> nat \<Rightarrow> error + 'a list" where
  "values_at ds i j =
     (if i < num_variables ds \<and> j < length (zone_list ds) then Inr (vals ds i j)
      else Inl IndexError)"

text \<open>
  The statements of \<^verbatim>\<open>compute_statistics\<close> from the selection on, with the object
  that the name \<^verbatim>\<open>ds\<close> denotes as a parameter. \<^verbatim>\<open>var_stats\<close> is a dictionary
  keyed by the variable's name.
\<close>

definition statistics_of ::
  "matcher \<Rightarrow> real dataset \<Rightarrow> real dataset \<Rightarrow> patterns \<Rightarrow> patterns
     \<Rightarrow> error + (string \<times> ZoneStats list) list" where
  "statistics_of m ds dataset variable_patterns zone_patterns =
     (case get_variables m ds variable_patterns of
        Inl e \<Rightarrow> Inl e
      | Inr variables \<Rightarrow>
         (case get_zones m ds zone_patterns of
            Inl e \<Rightarrow> Inl e
          | Inr zones \<Rightarrow>
             (case traverse (\<lambda>var.
                     case traverse (\<lambda>zone.
                            case values_at dataset (index var) (index zone) of
                              Inl e \<Rightarrow> Inl e
                            | Inr d \<Rightarrow> zone_stat (name zone) d) zones of
                       Inl e \<Rightarrow> Inl e
                     | Inr zone_stats \<Rightarrow> Inr (name var, zone_stats)) variables of
                Inl e \<Rightarrow> Inl e
              | Inr kvs \<Rightarrow> Inr (foldl (\<lambda>var_stats (k, v). AList.update k v var_stats) [] kvs))))"

text \<open>
  The names bound at module level in \<^verbatim>\<open>core.py\<close> are the imported modules,
  \<^verbatim>\<open>LOG\<close> and the functions; none of them is \<^verbatim>\<open>ds\<close>, \<^verbatim>\<open>var_pattern\<close> or
  \<^verbatim>\<open>zone_pattern\<close>. Reading a name that is neither local nor bound at module level
  raises \<^verbatim>\<open>NameError\<close>.
\<close>

definition module_names :: "string list" where
  "module_names =
     [''collections'', ''itertools'', ''logging'', ''math'', ''np'', ''os'', ''sys'',
      ''tempfile'', ''contextmanager'', ''SourceFileLoader'', ''mean'', ''LOG'',
      ''get_variables'', ''get_zones'', ''rescale_frame'', ''set_linemap_yvariable'',
      ''set_contour_variable'', ''temp_frame'', ''write_dataset'', ''compute_statistics'',
      ''difference_datasets'', ''export_pages'', ''extract'', ''interpolate_dataset'',
      ''rename_variables'', ''rename_zones'', ''revolve_dataset'', ''slice_surfaces'']"

definition read_global :: "string \<Rightarrow> error + string" where
  "read_global n = (if n \<in> set module_names then Inr n else Inl (NameError n))"

text \<open>
  \<^verbatim>\<open>compute_statistics\<close>: the file is loaded into the local \<^verbatim>\<open>dataset\<close>, and the
  selection reads the name \<^verbatim>\<open>ds\<close>, which the function never assigns. A module-level
  binding of that name would be a module or a function, on which the selection's call of
  \<^verbatim>\<open>ds.variables\<close> raises in turn.
\<close>

definition compute_statistics ::
  "matcher \<Rightarrow> real dataset \<Rightarrow> patterns \<Rightarrow> patterns \<Rightarrow> session
     \<Rightarrow> (error + (string \<times> ZoneStats list) list) \<times> session" where
  "compute_statistics m dataset variable_patterns zone_patterns s =
     with_temp_frame (\<lambda>frame s1.
       case read_global ''ds'' of
         Inl e \<Rightarrow> (Inl e, s1)
       | Inr g \<Rightarrow> (Inl (TypeError ''object has no attribute variables''), s1)) s"

section \<open>difference_datasets\<close>

text \<open>Decimal rendering of a count, as \<^verbatim>\<open>str.format\<close> does.\<close>

fun str_nat :: "nat \<Rightarrow> string" where
  "str_nat n =
     (if n < 10 then [char_of (48 + n)] else str_nat (n div 10) @ [char_of (48 + n mod 10)])"

text \<open>
  The message of the count check. Its first argument reads the name
  \<^verbatim>\<open>var_pattern\<close> (\<^verbatim>\<open>zone_pattern\<close> for zones); the parameters of the function
  are \<^verbatim>\<open>var_patterns\<close> and \<^verbatim>\<open>zone_patterns\<close>. The arguments of
  \<^verbatim>\<open>format\<close> are evaluated before anything is logged or raised.
\<close>

definition count_message :: "string \<Rightarrow> string \<Rightarrow> nat \<Rightarrow> nat \<Rightarrow> error + string" where
  "count_message what pattern_name n_new n_old =
     (case read_global pattern_name of
        Inl e \<Rightarrow> Inl e
      | Inr g \<Rightarrow>
          Inr (''The number of '' @ what @ '' matching the glob pattern '' @ [CHR 0x27] @ g
               @ [CHR 0x27] @ '' in datafile_new ('' @ str_nat n_new
               @ '') does not match the number in datafile_old ('' @ str_nat n_old @ '').''))"

definition count_mismatch ::
  "string \<Rightarrow> string \<Rightarrow> nat \<Rightarrow> nat \<Rightarrow> session \<Rightarrow> error \<times> session" where
  "count_mismatch what pattern_name n_new n_old s =
     (case count_message what pattern_name n_new n_old of
        Inl e \<Rightarrow> (e, s)
      | Inr message \<Rightarrow> (RuntimeError message, LOG ''error'' message [] s))"

text \<open>The warning for every positional pair whose names differ.\<close>

definition warn_mismatches :: "string \<Rightarrow> (entity \<times> entity) list \<Rightarrow> session \<Rightarrow> session" where
  "warn_mismatches what pairs s =
     foldl (\<lambda>s1 (i, (enew, eold)).
              if name enew \<noteq> name eold
              then LOG ''warning'' (what @ '' pair %d has mismatching names: %s != %s'')
                     [N i, S (name enew), S (name eold)] s1
              else s1) s (enumerate 0 pairs)"

text \<open>
  \<^verbatim>\<open>np.subtract\<close> on two one-dimensional arrays: element-wise, an array of one element
  being broadcast; any other pair of lengths raises. Not-a-number propagates.
\<close>

fun fsub :: "fval \<Rightarrow> fval \<Rightarrow> fval" where
  "fsub (Num a) (Num b) = Num (a - b)"
| "fsub _ _ = NaN"

definition np_subtract :: "fval list \<Rightarrow> fval list \<Rightarrow> error + fval list" where
  "np_subtract a b =
     (if length a = length b then Inr (map (\<lambda>(x, y). fsub x y) (zip a b))
      else if length b = 1 then Inr (map (\<lambda>x. fsub x (hd b)) a)
      else if length a = 1 then Inr (map (\<lambda>y. fsub (hd a) y) b)
      else Inl (ValueError ''operands could not be broadcast together''))"

text \<open>
  \<^verbatim>\<open>array[:] = xs\<close> on a value array of the grid library: the array keeps its length,
  and a sequence of another length is taken to raise.
\<close>

definition assign_all :: "'a list \<Rightarrow> 'a list \<Rightarrow> error + 'a list" where
  "assign_all cur xs =
     (if length xs = length cur then Inr xs else Inl (ValueError ''sequence length''))"

definition set_values :: "nat \<Rightarrow> nat \<Rightarrow> 'a list \<Rightarrow> 'a dataset \<Rightarrow> 'a dataset" where
  "set_values v z xs ds = ds\<lparr>vals := (vals ds)(v := (vals ds v)(z := xs))\<rparr>"

text \<open>The body of the \<^verbatim>\<open>try\<close>: subtract, then assign into the delta array \<open>cur\<close>.\<close>

definition try_subtract :: "fval list \<Rightarrow> fval list \<Rightarrow> fval list \<Rightarrow> error + fval list" where
  "try_subtract cur a b =
     (case np_subtract a b of Inl e \<Rightarrow> Inl e | Inr d \<Rightarrow> assign_all cur d)"

text \<open>The format string of the \<^verbatim>\<open>LOG.exception\<close> call, with its double quotes.\<close>

definition exception_format :: string where
  "exception_format =
     ''Error while computing delta '' @ [CHR 0x22] @ ''%s'' @ [CHR 0x22] @ '' for zones ''
     @ [CHR 0x22] @ ''%s'' @ [CHR 0x22] @ '' and '' @ [CHR 0x22] @ ''%s'' @ [CHR 0x22]
     @ ''. Setting to NaN.''"

text \<open>
  One pass of the inner loop, for the zone pair \<open>(znew, zold)\<close>; \<open>delta\<close> is the index
  of the delta variable. The bare \<^verbatim>\<open>except:\<close> catches every error of the
  \<^verbatim>\<open>try\<close> body, calls \<^verbatim>\<open>LOG.exception\<close> with a format of three specifiers and
  two arguments, and fills the zone's delta array with not-a-number.
\<close>

definition delta_zone ::
  "nat \<Rightarrow> entity \<Rightarrow> entity \<Rightarrow> fval dataset \<Rightarrow> fval dataset \<times> session \<Rightarrow> entity \<times> entity
     \<Rightarrow> fval dataset \<times> session" where
  "delta_zone delta vnew vold data_old st zz =
     (case st of (data_new, s) \<Rightarrow> case zz of (znew, zold) \<Rightarrow>
        (case try_subtract (vals data_new delta (index znew))
                (vals data_new (index vnew) (index znew))
                (vals data_old (index vold) (index zold)) of
           Inr d \<Rightarrow> (set_values delta (index znew) d data_new, s)
         | Inl e \<Rightarrow>
            (set_values delta (index znew)
               (replicate (length (vals data_new delta (index znew))) NaN) data_new,
             LOG ''exception''
               exception_format
               [S (name zold), S (name znew)] s)))"

text \<open>One pass of the outer loop, for the variable pair \<open>(vnew, vold)\<close>.\<close>

definition delta_var ::
  "nat \<Rightarrow> fval dataset \<Rightarrow> (entity \<times> entity) list \<Rightarrow> fval dataset \<times> session \<Rightarrow> entity \<times> entity
     \<Rightarrow> fval dataset \<times> session" where
  "delta_var nskip data_old zone_pairs st vv =
     (case st of (data_new, s) \<Rightarrow> case vv of (vnew, vold) \<Rightarrow>
        if index vnew < nskip \<or> index vold < nskip then (data_new, s)
        else foldl (delta_zone (num_variables data_new) vnew vold data_old)
               (add_variable (''delta_'' @ name vnew) data_new, s) zone_pairs)"

text \<open>
  \<^verbatim>\<open>difference_datasets\<close>; the two loaded datasets stand for the two input files.
\<close>

definition difference_body ::
  "matcher \<Rightarrow> fval dataset \<Rightarrow> fval dataset \<Rightarrow> string \<Rightarrow> patterns \<Rightarrow> patterns \<Rightarrow> nat \<Rightarrow> session
     \<Rightarrow> (error + fval saved) \<times> session" where
  "difference_body m data_new data_old datafile_out zone_patterns var_patterns nskip s =
     (case get_variables m data_new var_patterns of
        Inl e \<Rightarrow> (Inl e, s)
      | Inr var_new \<Rightarrow>
     (case get_variables m data_old var_patterns of
        Inl e \<Rightarrow> (Inl e, s)
      | Inr var_old \<Rightarrow>
     if length var_new \<noteq> length var_old
     then (case count_mismatch ''variables'' ''var_pattern'' (length var_new) (length var_old) s of
             (e, s1) \<Rightarrow> (Inl e, s1))
     else
     (let s1 = warn_mismatches ''Variable'' (zip var_new var_old) s in
     (case get_zones m data_new zone_patterns of
        Inl e \<Rightarrow> (Inl e, s1)
      | Inr zone_new \<Rightarrow>
     (case get_zones m data_old zone_patterns of
        Inl e \<Rightarrow> (Inl e, s1)
      | Inr zone_old \<Rightarrow>
     if length zone_new \<noteq> length zone_old
     then (case count_mismatch ''zones'' ''zone_pattern'' (length zone_new) (length zone_old) s1 of
             (e, s2) \<Rightarrow> (Inl e, s2))
     else
     (let s2 = warn_mismatches ''Zone'' (zip zone_new zone_old) s1;
          initial_num_vars = num_variables data_new;
          (data_new', s3) = foldl (delta_var nskip data_old (zip zone_new zone_old))
                              (data_new, s2) (zip var_new var_old);
          vars_to_save = [0..<nskip] @ [initial_num_vars..<num_variables data_new']
      in (Inr (write_dataset datafile_out data_new' (Some vars_to_save) (Some zone_new)),
          s3)))))))"

definition difference_datasets ::
  "matcher \<Rightarrow> fval dataset \<Rightarrow> fval dataset \<Rightarrow> string \<Rightarrow> patterns \<Rightarrow> patterns \<Rightarrow> nat \<Rightarrow> session
     \<Rightarrow> (error + fval saved) \<times> session" where
  "difference_datasets m data_new data_old datafile_out zone_patterns var_patterns nskip s =
     with_temp_frame (\<lambda>frame_new.
       with_temp_frame (\<lambda>frame_old.
         difference_body m data_new data_old datafile_out zone_patterns var_patterns nskip)) s"

section \<open>revolve_dataset\<close>

text \<open>
  A Python dictionary from a variable name to a pair of component names is an association
  list with distinct keys, in insertion order; \<open>AList.update\<close> is item assignment.
  \<open>dict_update d e\<close> is \<^verbatim>\<open>{**d, **e}\<close>, and \<open>dict_of\<close> reads a list of items as a
  dictionary.
\<close>

type_synonym vector_map = "(string \<times> string \<times> string) list"

definition dict_update :: "vector_map \<Rightarrow> vector_map \<Rightarrow> vector_map" where
  "dict_update d e = foldl (\<lambda>acc kv. AList.update (fst kv) (snd kv) acc) d e"

definition dict_of :: "vector_map \<Rightarrow> vector_map" where
  "dict_of e = dict_update [] e"

text \<open>The arguments \<^verbatim>\<open>vector_vars\<close> (\<^verbatim>\<open>None\<close>, a list or a dictionary) and
  \<^verbatim>\<open>radial_coord\<close> (\<^verbatim>\<open>None\<close>, a name or a dictionary).\<close>

datatype vectors = VNone | VList "string list" | VDict vector_map

datatype radial = RNone | RStr string | RDict vector_map

text \<open>
  \<^verbatim>\<open>
    if vector_vars:
        if isinstance(vector_vars,list):
            vector_vars = { v:(v+'_cos',v+'_sin') for v in vector_vars }
    else:
        vector_vars = {}
  \<close>
\<close>

fun vector_dict :: "vectors \<Rightarrow> vector_map" where
  "vector_dict VNone = []"
| "vector_dict (VList l) = dict_of (map (\<lambda>v. (v, v @ ''_cos'', v @ ''_sin'')) l)"
| "vector_dict (VDict d) = dict_of d"

text \<open>
  The radial coordinate: a false argument (\<^verbatim>\<open>None\<close>, the empty string, the empty
  dictionary) is replaced by \<^verbatim>\<open>vars_in[1]\<close>, which raises when there is no second
  variable; a name becomes the dictionary \<^verbatim>\<open>{name: (name, 'z')}\<close> and sets
  \<^verbatim>\<open>default_zname\<close>.
\<close>

fun radial_false :: "radial \<Rightarrow> bool" where
  "radial_false RNone = True"
| "radial_false (RStr n) = (n = [])"
| "radial_false (RDict d) = (d = [])"

definition radial_dict :: "string list \<Rightarrow> radial \<Rightarrow> error + vector_map \<times> bool" where
  "radial_dict vars_in radial_coord =
     (case (if radial_false radial_coord
            then (if 1 < length vars_in then Inr (RStr (vars_in ! 1)) else Inl IndexError)
            else Inr radial_coord) of
        Inl e \<Rightarrow> Inl e
      | Inr RNone \<Rightarrow> Inl (TypeError ''NoneType'')
      | Inr (RStr n) \<Rightarrow> Inr ([(n, n, ''z'')], True)
      | Inr (RDict d) \<Rightarrow> Inr (dict_of d, False))"

text \<open>Looking a variable up by name finds the first variable of that name.\<close>

fun name_index :: "string list \<Rightarrow> string \<Rightarrow> nat option" where
  "name_index [] n = None"
| "name_index (x # xs) n = (if x = n then Some 0 else map_option Suc (name_index xs n))"

definition values_by_name :: "'a dataset \<Rightarrow> nat \<Rightarrow> string \<Rightarrow> error + 'a list" where
  "values_by_name ds z n =
     (case name_index (variable_names ds) n of
        None \<Rightarrow> Inl (LookupError n)
      | Some i \<Rightarrow> Inr (vals ds i z))"

text \<open>
  The variable list of the output dataset:
  \<^verbatim>\<open>
    for v in vars_in:
        data_out.add_variable(v)
        if v in vector_vars:
            for component in vector_vars[v]:
                if not component in vars_in:
                    data_out.add_variable(component)
  \<close>
\<close>

definition add_components :: "string list \<Rightarrow> string list \<Rightarrow> real dataset \<Rightarrow> real dataset" where
  "add_components vars_in components data_out =
     foldl (\<lambda>d component. if component \<notin> set vars_in then add_variable component d else d)
       data_out components"

definition build_variables :: "string list \<Rightarrow> vector_map \<Rightarrow> real dataset \<Rightarrow> real dataset" where
  "build_variables vars_in vector_vars data_out =
     foldl (\<lambda>d v.
              case map_of vector_vars v of
                None \<Rightarrow> add_variable v d
              | Some (vy, vz) \<Rightarrow> add_components vars_in [vy, vz] (add_variable v d))
       data_out vars_in"

text \<open>\<^verbatim>\<open>frame_out.create_dataset('anchor3d')\<close>: an empty dataset.\<close>

definition create_dataset :: "real dataset" where
  "create_dataset = \<lparr>variable_names = [], zone_list = [], vals = (\<lambda>v z. [])\<rparr>"

text \<open>
  \<^verbatim>\<open>np.linspace(start, stop, num)\<close> with its default \<^verbatim>\<open>endpoint=True\<close>, and
  \<^verbatim>\<open>np.radians\<close>.
\<close>

definition linspace :: "real \<Rightarrow> real \<Rightarrow> nat \<Rightarrow> real list" where
  "linspace start stop num =
     (let dv = num - 1;
          step = (stop - start) / real dv;
          y = map (\<lambda>i. if 0 < dv then real i * step + start
                        else real i * (stop - start) + start) [0..<num]
      in if 1 < num then y[num - 1 := stop] else y)"

definition radians :: "real \<Rightarrow> real" where
  "radians a = a * pi / 180"

text \<open>
  \<^verbatim>\<open>data_out.add_ordered_zone(name, dims)\<close>: the new zone takes the next index and
  every variable holds zeros in it, one per point. The zone records the dimension list it
  was created with.
\<close>

definition add_ordered_zone :: "string \<Rightarrow> nat list \<Rightarrow> 'a::zero dataset \<Rightarrow> 'a dataset" where
  "add_ordered_zone n dims ds =
     ds\<lparr>zone_list := zone_list ds
          @ [\<lparr>zone_name = n, ordered = True, rank = length dims, dimensions = dims\<rparr>],
        vals := (\<lambda>v z. if z = length (zone_list ds) then replicate (prod_list dims) 0
                       else vals ds v z)\<rparr>"

text \<open>
  \<^verbatim>\<open>array[lo:hi] = xs\<close> on a value array of the grid library: the array keeps its
  length; a slice that leaves the array, or a sequence of another length than the slice,
  is taken to raise.
\<close>

definition assign_slice :: "'a list \<Rightarrow> nat \<Rightarrow> nat \<Rightarrow> 'a list \<Rightarrow> error + 'a list" where
  "assign_slice arr lo hi xs =
     (if lo \<le> hi \<and> hi \<le> length arr \<and> length xs = hi - lo
      then Inr (take lo arr @ xs @ drop hi arr)
      else Inl (ValueError ''slice length''))"

definition write_block ::
  "nat \<Rightarrow> nat \<Rightarrow> nat \<Rightarrow> nat \<Rightarrow> 'a list \<Rightarrow> 'a dataset \<Rightarrow> error + 'a dataset" where
  "write_block v z k npt xs ds =
     (case assign_slice (vals ds v z) (k * npt) ((k + 1) * npt) xs of
        Inl e \<Rightarrow> Inl e
      | Inr arr \<Rightarrow> Inr (set_values v z arr ds))"

text \<open>A \<^verbatim>\<open>for\<close> loop whose body may raise: the first error ends it.\<close>

fun efold :: "('x \<Rightarrow> 's \<Rightarrow> error + 's) \<Rightarrow> 'x list \<Rightarrow> 's \<Rightarrow> error + 's" where
  "efold f [] s = Inr s"
| "efold f (x # xs) s = (case f x s of Inl e \<Rightarrow> Inl e | Inr s' \<Rightarrow> efold f xs s')"

text \<open>
  The body of \<^verbatim>\<open>for v in vars_in\<close> for the input zone of index \<open>zi\<close> and the output
  zone of index \<open>zo\<close>:
  \<^verbatim>\<open>
    vals_in  = zin.values(v)
    vals_out = zout.values(v)
    for k in range(planes):
        vals_out[k*npt:(k+1)*npt] = vals_in[:]
    if v in vector_vars:
        vy,vz  = vector_vars[v]
        vals_y = zout.values(vy)
        vals_z = zout.values(vz)
        for k in range(planes):
            vals_y[k*npt:(k+1)*npt] = np.multiply(vals_in[:],ct[k])
            vals_z[k*npt:(k+1)*npt] = np.multiply(vals_in[:],st[k])
  \<close>
\<close>

definition vector_plane ::
  "nat \<Rightarrow> nat \<Rightarrow> nat \<Rightarrow> nat \<Rightarrow> real list \<Rightarrow> real list \<Rightarrow> real list \<Rightarrow> nat \<Rightarrow> real dataset
     \<Rightarrow> error + real dataset" where
  "vector_plane iy iz zo npt ct st vals_in k d =
     (case write_block iy zo k npt (map (\<lambda>x. x * ct ! k) vals_in) d of
        Inl e \<Rightarrow> Inl e
      | Inr d' \<Rightarrow> write_block iz zo k npt (map (\<lambda>x. x * st ! k) vals_in) d')"

definition revolve_variable ::
  "real dataset \<Rightarrow> nat \<Rightarrow> nat \<Rightarrow> nat \<Rightarrow> nat \<Rightarrow> real list \<Rightarrow> real list \<Rightarrow> vector_map \<Rightarrow> string
     \<Rightarrow> real dataset \<Rightarrow> error + real dataset" where
  "revolve_variable data_in zi zo npt planes ct st vector_vars v data_out =
     (case values_by_name data_in zi v of
        Inl e \<Rightarrow> Inl e
      | Inr vals_in \<Rightarrow>
     (case name_index (variable_names data_out) v of
        None \<Rightarrow> Inl (LookupError v)
      | Some iv \<Rightarrow>
     (case efold (\<lambda>k. write_block iv zo k npt vals_in) [0..<planes] data_out of
        Inl e \<Rightarrow> Inl e
      | Inr d1 \<Rightarrow>
     (case map_of vector_vars v of
        None \<Rightarrow> Inr d1
      | Some (vy, vz) \<Rightarrow>
     (case name_index (variable_names d1) vy of
        None \<Rightarrow> Inl (LookupError vy)
      | Some iy \<Rightarrow>
     (case name_index (variable_names d1) vz of
        None \<Rightarrow> Inl (LookupError vz)
      | Some iz \<Rightarrow>
          efold (vector_plane iy iz zo npt ct st vals_in) [0..<planes] d1))))))"

text \<open>
  The body of \<^verbatim>\<open>for zin in data_in.zones()\<close>:
  \<^verbatim>\<open>
    assert isinstance(zin, tp.data.OrderedZone), ...
    assert zin.rank < 3, ...
    zout = data_out.add_ordered_zone(zin.name, [*zin.dimensions[0:zin.rank], planes])
    npt  = np.prod(zin.dimensions)
    for v in vars_in: ...
  \<close>
\<close>

definition zone_message :: "string \<Rightarrow> string \<Rightarrow> string" where
  "zone_message zn what =
     ''ERROR: Cannot revolve zone '' @ [CHR 0x22] @ zn @ [CHR 0x22] @ ''. Must be '' @ what @ ''.''"

definition revolve_zone ::
  "real dataset \<Rightarrow> nat \<Rightarrow> real list \<Rightarrow> real list \<Rightarrow> vector_map \<Rightarrow> nat \<times> zone
     \<Rightarrow> real dataset \<Rightarrow> error + real dataset" where
  "revolve_zone data_in planes ct st vector_vars iz data_out =
     (case iz of (zi, zin) \<Rightarrow>
        if \<not> ordered zin then Inl (AssertionError (zone_message (zone_name zin) ''an OrderedZone''))
        else if \<not> rank zin < 3 then Inl (AssertionError (zone_message (zone_name zin) ''rank 1 or 2''))
        else
          efold (revolve_variable data_in zi (length (zone_list data_out))
                   (prod_list (dimensions zin)) planes ct st vector_vars)
            (variable_names data_in)
            (add_ordered_zone (zone_name zin) (take (rank zin) (dimensions zin) @ [planes])
               data_out))"

text \<open>
  \<^verbatim>\<open>revolve_dataset\<close> inside its two temporary frames; \<open>data_in\<close> stands for the
  loaded input file. \<^verbatim>\<open>for v in vector_vars: assert v in vars_in\<close> fails at the first
  key that is no input variable.
\<close>

definition revolve_body ::
  "string \<Rightarrow> real dataset \<Rightarrow> string \<Rightarrow> radial \<Rightarrow> nat \<Rightarrow> real \<Rightarrow> vectors \<Rightarrow> nat \<Rightarrow> session
     \<Rightarrow> (error + real saved) \<times> session" where
  "revolve_body datafile_in data_in datafile_out radial_coord planes angle vector_vars frame_out s =
     (let vars_in = variable_names data_in in
      if \<not> distinct vars_in
      then (Inl (AssertionError (''ERROR: Cannot revolve '' @ datafile_in
                   @ ''. All variables must have unique names.'')), s)
      else
     (case radial_dict vars_in radial_coord of
        Inl e \<Rightarrow> (Inl e, s)
      | Inr (radial_coord1, default_zname) \<Rightarrow>
     (let vector_vars1 = dict_update radial_coord1 (vector_dict vector_vars) in
     (case radial_coord1 of
        [] \<Rightarrow> (Inl IndexError, s)
      | (rname, _) # _ \<Rightarrow>
      if rname \<notin> set vars_in
      then (Inl (AssertionError (''ERROR: User-specified radial coordinate '' @ rname
                   @ '' does not exist in dataset!'')), s)
      else if default_zname \<and> ''z'' \<in> set vars_in
      then (Inl (AssertionError (''ERROR: New coordinate '' @ [CHR 0x22] @ ''z'' @ [CHR 0x22]
                   @ '' will clobber existing variable! ''
                   @ ''Please use a dict argument to radial_coord to specify coordinate names.'')), s)
      else
     (case find (\<lambda>v. v \<notin> set vars_in) (map fst vector_vars1) of
        Some v \<Rightarrow>
          (Inl (AssertionError (''ERROR: User requested vector variable '' @ v
                  @ '' not present in dataset.'')), s)
      | None \<Rightarrow>
     (let s1 = s\<lparr>created := created s @ [frame_out]\<rparr>;
          data_out = build_variables vars_in vector_vars1 create_dataset;
          t = linspace 0 (radians angle) planes;
          st = map sin t;
          ct = map cos t
      in case efold (revolve_zone data_in planes ct st vector_vars1)
                (enumerate 0 (zone_list data_in)) data_out of
           Inl e \<Rightarrow> (Inl e, s1)
         | Inr d \<Rightarrow> (Inr (write_dataset datafile_out d None None), s1)))))))"

definition revolve_dataset ::
  "string \<Rightarrow> real dataset \<Rightarrow> string \<Rightarrow> radial \<Rightarrow> nat \<Rightarrow> real \<Rightarrow> vectors \<Rightarrow> session
     \<Rightarrow> (error + real saved) \<times> session" where
  "revolve_dataset datafile_in data_in datafile_out radial_coord planes angle vector_vars s =
     with_temp_frame (\<lambda>frame_in.
       with_temp_frame (\<lambda>frame_out.
         revolve_body datafile_in data_in datafile_out radial_coord planes angle vector_vars
           frame_out)) s"

text \<open>
  The invariant of the data model: every (variable, zone) pair of a dataset owns one value
  per point of the zone.
\<close>

definition well_formed :: "'a dataset \<Rightarrow> bool" where
  "well_formed ds \<longleftrightarrow>
     (\<forall>z < length (zone_list ds). \<forall>v < num_variables ds.
        length (vals ds v z) = num_points (zone_list ds ! z))"

text \<open>
  The value block of plane \<open>k\<close> in an array of an output zone, the slice
  \<^verbatim>\<open>vals_out[k*npt:(k+1)*npt]\<close> that the plane loop assigns.
\<close>

definition plane_block :: "nat \<Rightarrow> nat \<Rightarrow> 'a list \<Rightarrow> 'a list" where
  "plane_block npt k arr = take npt (drop (k * npt) arr)"

section \<open>Concrete data for evaluation\<close>

definition fresh_session :: session where
  "fresh_session = \<lparr>frames = [], next_frame = 0, created = [], log = [], logging_errors = []\<rparr>"

text \<open>One variable \<^verbatim>\<open>p\<close>, one zone of three points holding 1, 2, 3.\<close>

definition single_123 :: "real dataset" where
  "single_123 =
     \<lparr>variable_names = [''p''],
      zone_list = [\<lparr>zone_name = ''wall'', ordered = True, rank = 1, dimensions = [3, 1, 1]\<rparr>],
      vals = (\<lambda>v z. if v = 0 \<and> z = 0 then [1, 2, 3] else [])\<rparr>"

text \<open>
  Two runs of four variables and two zones: in \<open>run_new\<close> the zones have two and three
  points, in \<open>run_old\<close> two and four, so the second zone pair cannot be subtracted.
  \<open>run_short\<close> is \<open>run_old\<close> without its last variable and last zone.
\<close>

definition run_new :: "fval dataset" where
  "run_new =
     \<lparr>variable_names = [''x'', ''y'', ''z'', ''p''],
      zone_list = [\<lparr>zone_name = ''a'', ordered = True, rank = 1, dimensions = [2, 1, 1]\<rparr>,
                   \<lparr>zone_name = ''b'', ordered = True, rank = 1, dimensions = [3, 1, 1]\<rparr>],
      vals = (\<lambda>v z. if v < 4 then (if z = 0 then [Num 5, Num 7]
                                   else if z = 1 then [Num 1, Num 2, Num 3] else []) else [])\<rparr>"

definition run_old :: "fval dataset" where
  "run_old =
     \<lparr>variable_names = [''x'', ''y'', ''z'', ''p''],
      zone_list = [\<lparr>zone_name = ''a'', ordered = True, rank = 1, dimensions = [2, 1, 1]\<rparr>,
                   \<lparr>zone_name = ''b'', ordered = True, rank = 1, dimensions = [4, 1, 1]\<rparr>],
      vals = (\<lambda>v z. if v < 4 then (if z = 0 then [Num 1, Num 1]
                                   else if z = 1 then [Num 0, Num 0, Num 0, Num 0] else []) else [])\<rparr>"

definition run_short :: "fval dataset" where
  "run_short =
     \<lparr>variable_names = [''x'', ''y'', ''z''],
      zone_list = [\<lparr>zone_name = ''a'', ordered = True, rank = 1, dimensions = [2, 1, 1]\<rparr>],
      vals = (\<lambda>v z. if v < 3 \<and> z = 0 then [Num 1, Num 1] else [])\<rparr>"

text \<open>
  The surface of the revolve test: six variables and one curve zone of eleven points;
  the values of variable \<open>v\<close> are \<open>v + 1\<close> at every point. \<open>tiny_surf\<close> has two
  variables and one zone of two points.
\<close>

definition axi_sphere_surf :: "real dataset" where
  "axi_sphere_surf =
     \<lparr>variable_names = [''x'', ''y'', ''q1'', ''q2'', ''v1'', ''v2''],
      zone_list = [\<lparr>zone_name = ''surf'', ordered = True, rank = 1, dimensions = [11, 1, 1]\<rparr>],
      vals = (\<lambda>v z. if v < 6 \<and> z = 0 then replicate 11 (real v + 1) else [])\<rparr>"

definition tiny_surf :: "real dataset" where
  "tiny_surf =
     \<lparr>variable_names = [''x'', ''r''],
      zone_list = [\<lparr>zone_name = ''surf'', ordered = True, rank = 1, dimensions = [2, 1]\<rparr>],
      vals = (\<lambda>v z. if z = 0 then (if v = 0 then [5, 6] else if v = 1 then [2, 3] else [])
                     else [])\<rparr>"

section \<open>Properties of the entity selector\<close>






lemma map_index_entities: "map index (entities ns) = [0..<length ns]"
  by (simp add: entities_def enumerate_eq_zip case_prod_unfold comp_def map_fst_zip)






lemma entities_member:
  "e \<in> set (entities ns) \<Longrightarrow> index e < length ns \<and> name e = ns ! index e"
  by (auto simp: entities_def enumerate_eq_zip in_set_zip)

lemma distinct_index_entities: "distinct (map index (entities ns))"
  by (simp add: map_index_entities)

lemma update_inv:
  assumes "distinct (map fst al)" "\<forall>(k, v) \<in> set al. name v = k \<and> v \<in> E" "w \<in> E"
  shows "distinct (map fst (AList.update (name w) w al))
         \<and> (\<forall>(k, v) \<in> set (AList.update (name w) w al). name v = k \<and> v \<in> E)"
proof -
  have "set (AList.update (name w) w al) \<subseteq> insert (name w, w) (set al)"
    by (induction al) auto
  with assms show ?thesis by (auto simp: distinct_update)
qed

lemma foldl_update_inv:
  assumes "distinct (map fst al)" "\<forall>(k, v) \<in> set al. name v = k \<and> v \<in> E" "set vs \<subseteq> E"
  shows "distinct (map fst (foldl (\<lambda>mt v. AList.update (name v) v mt) al vs))
         \<and> (\<forall>(k, v) \<in> set (foldl (\<lambda>mt v. AList.update (name v) v mt) al vs). name v = k \<and> v \<in> E)"
  using assms
proof (induction vs arbitrary: al)
  case Nil
  then show ?case by simp
next
  case (Cons w vs)
  have "w \<in> E" using Cons.prems(3) by simp
  from update_inv [OF Cons.prems(1,2) this] Cons.prems(3) Cons.IH [of "AList.update (name w) w al"]
  show ?case by simp
qed

lemma collect_inv_aux:
  assumes "distinct (map fst al)" "\<forall>(k, v) \<in> set al. name v = k \<and> v \<in> E"
    "\<And>p. set (prim p) \<subseteq> E"
  shows "distinct (map fst (foldl (\<lambda>matches p. foldl (\<lambda>mt v. AList.update (name v) v mt) matches (prim (PStr p))) al ps))
         \<and> (\<forall>(k, v) \<in> set (foldl (\<lambda>matches p. foldl (\<lambda>mt v. AList.update (name v) v mt) matches (prim (PStr p))) al ps). name v = k \<and> v \<in> E)"
  using assms(1,2)
proof (induction ps arbitrary: al)
  case Nil
  then show ?case by simp
next
  case (Cons p ps)
  from foldl_update_inv [OF Cons.prems assms(3) [of "PStr p"]]
    Cons.IH [of "foldl (\<lambda>mt v. AList.update (name v) v mt) al (prim (PStr p))"]
  show ?case by simp
qed

lemma collect_inv:
  assumes "\<And>p. set (prim p) \<subseteq> E"
  shows "distinct (map name (map snd (collect prim ps))) \<and> set (map snd (collect prim ps)) \<subseteq> E"
proof -
  let ?al = "collect prim ps"
  have inv: "distinct (map fst ?al)" "\<forall>(k, v) \<in> set ?al. name v = k \<and> v \<in> E"
    using collect_inv_aux [of "[]" E prim ps] assms by (simp_all add: collect_def)
  have eq: "map name (map snd ?al) = map fst ?al"
    using inv(2) by auto
  have "distinct (map name (map snd ?al))" unfolding eq by (rule inv(1))
  moreover have "set (map snd ?al) \<subseteq> E" using inv(2) by auto
  ultimately show ?thesis by blast
qed

lemma select_entities:
  assumes "select what (\<lambda>p. filter (q p) (entities ns)) pats = Inr r"
  shows "distinct (map index r) \<and> (\<forall>e \<in> set r. index e < length ns \<and> name e = ns ! index e)"
proof -
  let ?prim = "\<lambda>p. filter (q p) (entities ns)"
  have sub: "\<And>p. set (?prim p) \<subseteq> set (entities ns)" by auto
  have "distinct (map index r) \<and> set r \<subseteq> set (entities ns)"
  proof (cases "\<not> truthy pats \<or> isinstance_str pats")
    case True
    then have "r = ?prim pats" using assms by (auto simp: select_def Let_def split: if_splits sum.splits)
    then show ?thesis using distinct_index_entities [of ns] by (auto simp: distinct_map_filter)
  next
    case False
    then have r: "r = map snd (collect ?prim (items pats))"
      using assms by (auto simp: select_def Let_def split: if_splits sum.splits)
    from collect_inv [of ?prim "set (entities ns)" "items pats", OF sub]
    have d: "distinct (map name r)" and s: "set r \<subseteq> set (entities ns)" unfolding r by auto
    have "inj_on index (set r)"
    proof (rule inj_onI)
      fix a b assume "a \<in> set r" "b \<in> set r" "index a = index b"
      then have ab: "a \<in> set (entities ns)" "b \<in> set (entities ns)" "index a = index b"
        using s by blast+
      from entities_member [OF ab(1)] entities_member [OF ab(2)] ab(3)
      have "name a = name b" "index a = index b" by simp_all
      then show "a = b" by (intro entity.equality) simp_all
    qed
    moreover have "distinct r" using d by (simp add: distinct_map)
    ultimately show ?thesis using s by (simp add: distinct_map)
  qed
  then show ?thesis using entities_member by blast
qed

lemma get_variables_entities:
  "get_variables m ds pats = Inr r \<Longrightarrow>
     distinct (map index r) \<and> (\<forall>e \<in> set r. index e < num_variables ds \<and> name e = variable_names ds ! index e)"
  unfolding get_variables_def ds_variables_def num_variables_def
  by (rule select_entities [where q = "\<lambda>p v. m p (name v)"])

lemma get_zones_entities:
  assumes "get_zones m ds pats = Inr r"
  shows "distinct (map index r) \<and> (\<forall>e \<in> set r. index e < length (zone_list ds))"
proof -
  have "select ''zones'' (\<lambda>p. filter (\<lambda>v. m p (name v)) (entities (map zone_name (zone_list ds)))) pats = Inr r"
    using assms unfolding get_zones_def ds_zones_def .
  from select_entities [OF this] show ?thesis by simp
qed




section \<open>Properties of the temporary frame\<close>

lemma with_temp_frame_returns:
  "body (next_frame s) (s\<lparr>frames := frames s @ [next_frame s], next_frame := Suc (next_frame s)\<rparr>)
     = (Inr x, s2) \<Longrightarrow> with_temp_frame body s = (Inr x, delete_frame (next_frame s) s2)"
  by (simp add: with_temp_frame_def add_frame_def)

lemma with_temp_frame_raises:
  "body (next_frame s) (s\<lparr>frames := frames s @ [next_frame s], next_frame := Suc (next_frame s)\<rparr>)
     = (Inl e, s2) \<Longrightarrow> with_temp_frame body s = (Inl e, s2)"
  by (simp add: with_temp_frame_def add_frame_def)

text \<open>
  C3. When the body of the scope raises, the temporary frame is still on the page after
  control has returned to the caller: for a body that raises at once, and for
  \<^verbatim>\<open>extract\<close> called with a zone pattern that matches nothing.
\<close>

theorem temp_frame_kept_when_body_raises:
  "with_temp_frame (\<lambda>frame s1. (Inl e, s1)) s
     = (Inl e, s\<lparr>frames := frames s @ [next_frame s], next_frame := Suc (next_frame s)\<rparr>)
   \<and> extract_dataset fnmatch single_123 ''out.plt'' (PList [''nomatch'']) PNone fresh_session
     = (Inl (AssertionError ''No zones in dataset matching nomatch''),
        fresh_session\<lparr>frames := [0], next_frame := 1\<rparr>)"
  by (simp add: with_temp_frame_def add_frame_def extract_dataset_def get_zones_def select_def
      collect_def ds_zones_def entities_def single_123_def fresh_session_def)

section \<open>Properties of compute_statistics\<close>

lemma statistics_of_single_123:
  "statistics_of fnmatch single_123 single_123 PNone PNone
     = Inr [(''p'', [\<lparr>stat_name = ''wall'', stat_max = 3, stat_min = 1, stat_mean = 2\<rparr>])]"
  by (simp add: statistics_of_def get_variables_def get_zones_def select_def ds_variables_def
      ds_zones_def entities_def single_123_def values_at_def num_variables_def zone_stat_def)

text \<open>
  C1. \<^verbatim>\<open>compute_statistics\<close> returns no statistics: on every dataset, that of one
  variable and one zone holding 1, 2, 3 included, it raises \<^verbatim>\<open>NameError\<close> for
  \<^verbatim>\<open>ds\<close>, and leaves its temporary frame on the page.
\<close>

theorem compute_statistics_raises_NameError:
  "compute_statistics m dataset variable_patterns zone_patterns s
     = (Inl (NameError ''ds''),
        s\<lparr>frames := frames s @ [next_frame s], next_frame := Suc (next_frame s)\<rparr>)"
  by (simp add: compute_statistics_def with_temp_frame_def add_frame_def read_global_def
      module_names_def)

section \<open>Properties of difference_datasets\<close>

lemma delta_zone_step:
  "delta_zone delta vnew vold data_old (ds, s) (zn, zo) =
     (set_values delta (index zn)
        (case try_subtract (vals ds delta (index zn)) (vals ds (index vnew) (index zn))
                (vals data_old (index vold) (index zo)) of
           Inr d \<Rightarrow> d
         | Inl e \<Rightarrow> replicate (length (vals ds delta (index zn))) NaN) ds,
      case try_subtract (vals ds delta (index zn)) (vals ds (index vnew) (index zn))
                (vals data_old (index vold) (index zo)) of
        Inr d \<Rightarrow> s
      | Inl e \<Rightarrow> LOG ''exception'' exception_format [S (name zo), S (name zn)] s)"
  by (simp add: delta_zone_def split: sum.splits)

lemma try_subtract_length: "try_subtract cur a b = Inr d \<Longrightarrow> length d = length cur"
  by (auto simp: try_subtract_def assign_all_def split: sum.splits if_splits)

lemma LOG_exception:
  "LOG ''exception'' exception_format [a, b] s
     = s\<lparr>logging_errors := logging_errors s
          @ [\<lparr>level = ''exception'', fmt = exception_format, args = [a, b]\<rparr>]\<rparr>"
  by (simp add: LOG_def exception_format_def)

lemma log_ext_refl: "log s = log s \<and> set (logging_errors s) \<subseteq> set (logging_errors s)"
  by simp

lemma log_ext_trans:
  assumes "log s1 = log s \<and> set (logging_errors s) \<subseteq> set (logging_errors s1)"
    "log s2 = log s1 \<and> set (logging_errors s1) \<subseteq> set (logging_errors s2)"
  shows "log s2 = log s \<and> set (logging_errors s) \<subseteq> set (logging_errors s2)"
  using assms by auto

lemma inner_loop:
  assumes "foldl (delta_zone delta vnew vold data_old) (ds, s) zp = (ds', s')"
  shows "variable_names ds' = variable_names ds \<and> zone_list ds' = zone_list ds
       \<and> (\<forall>v z. v \<noteq> delta \<longrightarrow> vals ds' v z = vals ds v z)
       \<and> (\<forall>z. z \<notin> set (map (index \<circ> fst) zp) \<longrightarrow> vals ds' delta z = vals ds delta z)
       \<and> (log s' = log s \<and> set (logging_errors s) \<subseteq> set (logging_errors s'))"
  using assms
proof (induction zp arbitrary: ds s)
  case Nil
  then show ?case using log_ext_refl [of s] by simp
next
  case (Cons x xs)
  obtain zn zo where x: "x = (zn, zo)" by (cases x)
  obtain ds1 s1 where st: "delta_zone delta vnew vold data_old (ds, s) (zn, zo) = (ds1, s1)"
    by (cases "delta_zone delta vnew vold data_old (ds, s) (zn, zo)")
  have one: "variable_names ds1 = variable_names ds" "zone_list ds1 = zone_list ds"
    "\<And>v z. v \<noteq> delta \<Longrightarrow> vals ds1 v z = vals ds v z"
    "\<And>z. z \<noteq> index zn \<Longrightarrow> vals ds1 delta z = vals ds delta z"
    using st unfolding delta_zone_step
    by (auto simp: set_values_def)
  have lg: "log s1 = log s \<and> set (logging_errors s) \<subseteq> set (logging_errors s1)"
  proof (cases "try_subtract (vals ds delta (index zn)) (vals ds (index vnew) (index zn))
                (vals data_old (index vold) (index zo))")
    case (Inl e)
    then have "s1 = LOG ''exception'' exception_format [S (name zo), S (name zn)] s"
      using st unfolding delta_zone_step by simp
    then show ?thesis by (auto simp: LOG_exception)
  next
    case (Inr d)
    then have "s1 = s" using st unfolding delta_zone_step by simp
    then show ?thesis using log_ext_refl [of s] by simp
  qed
  have "foldl (delta_zone delta vnew vold data_old) (ds1, s1) xs = (ds', s')"
    using Cons.prems by (simp add: x st)
  from Cons.IH [OF this]
  have ih: "variable_names ds' = variable_names ds1" "zone_list ds' = zone_list ds1"
    "\<And>v z. v \<noteq> delta \<Longrightarrow> vals ds' v z = vals ds1 v z"
    "\<And>z. z \<notin> set (map (index \<circ> fst) xs) \<Longrightarrow> vals ds' delta z = vals ds1 delta z"
    "log s' = log s1 \<and> set (logging_errors s1) \<subseteq> set (logging_errors s')"
    by blast+
  have "log s' = log s \<and> set (logging_errors s) \<subseteq> set (logging_errors s')"
    using log_ext_trans [OF lg ih(5)] .
  then show ?case using one ih(1-4) by (simp add: x)
qed

lemma inner_values:
  assumes "foldl (delta_zone delta vnew vold data_old) (ds, s) zp = (ds', s')"
    and "distinct (map (index \<circ> fst) zp)" and "index vnew \<noteq> delta" and "(zn, zo) \<in> set zp"
  shows "vals ds' delta (index zn) =
           (case try_subtract (vals ds delta (index zn)) (vals ds (index vnew) (index zn))
                   (vals data_old (index vold) (index zo)) of
              Inr d \<Rightarrow> d
            | Inl e \<Rightarrow> replicate (length (vals ds delta (index zn))) NaN)
         \<and> ((\<exists>e. try_subtract (vals ds delta (index zn)) (vals ds (index vnew) (index zn))
                   (vals data_old (index vold) (index zo)) = Inl e)
              \<longrightarrow> \<lparr>level = ''exception'', fmt = exception_format,
                    args = [S (name zo), S (name zn)]\<rparr> \<in> set (logging_errors s'))"
  using assms
proof (induction zp arbitrary: ds s)
  case Nil
  then show ?case by simp
next
  case (Cons x xs)
  obtain zn0 zo0 where x: "x = (zn0, zo0)" by (cases x)
  obtain ds1 s1 where st: "delta_zone delta vnew vold data_old (ds, s) (zn0, zo0) = (ds1, s1)"
    by (cases "delta_zone delta vnew vold data_old (ds, s) (zn0, zo0)")
  have rest: "foldl (delta_zone delta vnew vold data_old) (ds1, s1) xs = (ds', s')"
    using Cons.prems(1) by (simp add: x st)
  note fr = inner_loop [OF rest]
  have d: "index zn0 \<notin> set (map (index \<circ> fst) xs)" "distinct (map (index \<circ> fst) xs)"
    using Cons.prems(2) by (auto simp: x comp_def)
  show ?case
  proof (cases "(zn, zo) = (zn0, zo0)")
    case True
    then have eq: "zn = zn0" "zo = zo0" by simp_all
    have v: "vals ds' delta (index zn0) = vals ds1 delta (index zn0)"
      using fr d(1) by blast
    let ?T = "try_subtract (vals ds delta (index zn0)) (vals ds (index vnew) (index zn0))
                (vals data_old (index vold) (index zo0))"
    let ?rec = "\<lparr>level = ''exception'', fmt = exception_format,
                  args = [S (name zo0), S (name zn0)]\<rparr>"
    from st have ds1: "ds1 = set_values delta (index zn0)
          (case ?T of Inr d \<Rightarrow> d
           | Inl e \<Rightarrow> replicate (length (vals ds delta (index zn0))) NaN) ds"
      and s1: "s1 = (case ?T of Inr d \<Rightarrow> s | Inl e \<Rightarrow> LOG ''exception'' exception_format
                       [S (name zo0), S (name zn0)] s)"
      unfolding delta_zone_step by simp_all
    have a: "vals ds1 delta (index zn0) =
          (case ?T of Inr d \<Rightarrow> d
           | Inl e \<Rightarrow> replicate (length (vals ds delta (index zn0))) NaN)"
      unfolding ds1 by (simp add: set_values_def)
    have b: "(\<exists>e. ?T = Inl e) \<longrightarrow> ?rec \<in> set (logging_errors s1)"
      unfolding s1 by (auto simp: LOG_exception)
    have c: "set (logging_errors s1) \<subseteq> set (logging_errors s')" using fr by blast
    show ?thesis unfolding eq using a b c v by auto
  next
    case False
    then have mem: "(zn, zo) \<in> set xs" using Cons.prems(4) by (auto simp: x)
    then have ne: "index zn \<noteq> index zn0" using d(1) by force
    have same: "vals ds1 delta (index zn) = vals ds delta (index zn)"
      "vals ds1 (index vnew) (index zn) = vals ds (index vnew) (index zn)"
      using st ne Cons.prems(3) unfolding delta_zone_step by (auto simp: set_values_def)
    from Cons.IH [OF rest d(2) Cons.prems(3) mem] show ?thesis
      unfolding same .
  qed
qed




lemma delta_var_skip:
  "index vn < nskip \<or> index vo < nskip \<Longrightarrow> delta_var nskip data_old zp (ds, s) (vn, vo) = (ds, s)"
  by (simp add: delta_var_def)

lemma delta_var_keep:
  "nskip \<le> index vn \<and> nskip \<le> index vo \<Longrightarrow>
     delta_var nskip data_old zp (ds, s) (vn, vo) =
       foldl (delta_zone (num_variables ds) vn vo data_old)
         (add_variable (''delta_'' @ name vn) ds, s) zp"
  by (auto simp: delta_var_def)

lemma add_variable_simps:
  "variable_names (add_variable n ds) = variable_names ds @ [n]"
  "zone_list (add_variable n ds) = zone_list ds"
  "num_variables (add_variable n ds) = Suc (num_variables ds)"
  "v \<noteq> num_variables ds \<Longrightarrow> vals (add_variable n ds) v = vals ds v"
  "vals (add_variable n ds) (num_variables ds) z = replicate (zone_points ds z) 0"
  by (simp_all add: add_variable_def num_variables_def)

lemma delta_var_frame:
  assumes "delta_var nskip data_old zp (ds, s) (vn, vo) = (ds1, s1)"
  shows "variable_names ds1 = variable_names ds
            @ map (\<lambda>vv. ''delta_'' @ name (fst vv))
                (filter (\<lambda>vv. nskip \<le> index (fst vv) \<and> nskip \<le> index (snd vv)) [(vn, vo)])
       \<and> zone_list ds1 = zone_list ds
       \<and> (\<forall>v < num_variables ds. vals ds1 v = vals ds v)
       \<and> (log s1 = log s \<and> set (logging_errors s) \<subseteq> set (logging_errors s1))"
proof (cases "nskip \<le> index vn \<and> nskip \<le> index vo")
  case True
  from assms have "foldl (delta_zone (num_variables ds) vn vo data_old)
         (add_variable (''delta_'' @ name vn) ds, s) zp = (ds1, s1)"
    unfolding delta_var_keep [OF True] .
  from inner_loop [OF this] True show ?thesis
    by (auto simp: add_variable_simps)
next
  case False
  then have "index vn < nskip \<or> index vo < nskip" by auto
  from assms have "ds1 = ds" "s1 = s" unfolding delta_var_skip [OF \<open>index vn < nskip \<or> index vo < nskip\<close>]
    by simp_all
  then show ?thesis using False log_ext_refl [of s] by auto
qed

lemma outer_loop:
  assumes "foldl (delta_var nskip data_old zp) (ds, s) vp = (ds', s')"
  shows "variable_names ds' = variable_names ds
            @ map (\<lambda>vv. ''delta_'' @ name (fst vv))
                (filter (\<lambda>vv. nskip \<le> index (fst vv) \<and> nskip \<le> index (snd vv)) vp)
       \<and> zone_list ds' = zone_list ds
       \<and> (\<forall>v < num_variables ds. vals ds' v = vals ds v)
       \<and> (log s' = log s \<and> set (logging_errors s) \<subseteq> set (logging_errors s'))"
  using assms
proof (induction vp arbitrary: ds s)
  case Nil
  then show ?case using log_ext_refl [of s] by simp
next
  case (Cons x xs)
  obtain vn vo where x: "x = (vn, vo)" by (cases x)
  obtain ds1 s1 where st: "delta_var nskip data_old zp (ds, s) (vn, vo) = (ds1, s1)"
    by (cases "delta_var nskip data_old zp (ds, s) (vn, vo)")
  have rest: "foldl (delta_var nskip data_old zp) (ds1, s1) xs = (ds', s')"
    using Cons.prems by (simp add: x st)
  note one = delta_var_frame [OF st]
  note ih = Cons.IH [OF rest]
  have n: "num_variables ds \<le> num_variables ds1"
    using one by (simp add: num_variables_def)
  have lg: "log s' = log s \<and> set (logging_errors s) \<subseteq> set (logging_errors s')"
    using log_ext_trans one ih by blast
  have "\<forall>v < num_variables ds. vals ds' v = vals ds v"
    using one ih n by auto
  moreover have "zone_list ds' = zone_list ds" using one ih by simp
  moreover have "variable_names ds' = variable_names ds
            @ map (\<lambda>vv. ''delta_'' @ name (fst vv))
                (filter (\<lambda>vv. nskip \<le> index (fst vv) \<and> nskip \<le> index (snd vv)) (x # xs))"
    using one ih by (simp add: x)
  ultimately show ?case using lg by blast
qed


lemma zone_points_cong: "zone_list ds1 = zone_list ds \<Longrightarrow> zone_points ds1 = zone_points ds"
  by (auto simp: zone_points_def)

lemma outer_values:
  assumes "foldl (delta_var nskip data_old zp) (ds, s) vp = (ds', s')"
    and "distinct (map (index \<circ> fst) zp)"
    and "\<forall>vv \<in> set vp. index (fst vv) < num_variables ds"
    and "k < length (filter (\<lambda>vv. nskip \<le> index (fst vv) \<and> nskip \<le> index (snd vv)) vp)"
    and "filter (\<lambda>vv. nskip \<le> index (fst vv) \<and> nskip \<le> index (snd vv)) vp ! k = (vn, vo)"
    and "(zn, zo) \<in> set zp"
  shows "vals ds' (num_variables ds + k) (index zn) =
           (case try_subtract (replicate (zone_points ds (index zn)) 0)
                   (vals ds (index vn) (index zn)) (vals data_old (index vo) (index zo)) of
              Inr d \<Rightarrow> d
            | Inl e \<Rightarrow> replicate (zone_points ds (index zn)) NaN)
         \<and> ((\<exists>e. try_subtract (replicate (zone_points ds (index zn)) 0)
                   (vals ds (index vn) (index zn)) (vals data_old (index vo) (index zo)) = Inl e)
              \<longrightarrow> \<lparr>level = ''exception'', fmt = exception_format,
                    args = [S (name zo), S (name zn)]\<rparr> \<in> set (logging_errors s'))"
  using assms(1,3,4,5)
proof (induction vp arbitrary: ds s k)
  case Nil
  then show ?case by simp
next
  case (Cons x xs)
  let ?keep = "\<lambda>vv. nskip \<le> index (fst vv) \<and> nskip \<le> index (snd vv)"
  obtain a b where x: "x = (a, b)" by (cases x)
  obtain ds1 s1 where st: "delta_var nskip data_old zp (ds, s) (a, b) = (ds1, s1)"
    by (cases "delta_var nskip data_old zp (ds, s) (a, b)")
  have rest: "foldl (delta_var nskip data_old zp) (ds1, s1) xs = (ds', s')"
    using Cons.prems(1) by (simp add: x st)
  note one = delta_var_frame [OF st]
  note fr = outer_loop [OF rest]
  have zl: "zone_points ds1 = zone_points ds" using one by (intro zone_points_cong) simp
  have rng1: "\<forall>vv \<in> set xs. index (fst vv) < num_variables ds1"
    using Cons.prems(2) one by (auto simp: num_variables_def)
  have vn_lt: "index vn < num_variables ds"
  proof -
    have "(vn, vo) \<in> set (filter ?keep (x # xs))"
      using Cons.prems(3,4) nth_mem by metis
    then have "(vn, vo) \<in> set (x # xs)" by (metis filter_is_subset subsetD)
    then show ?thesis using Cons.prems(2) by fastforce
  qed
  show ?case
  proof (cases "?keep x")
    case False
    then have "index a < nskip \<or> index b < nskip" by (auto simp: x)
    from st have same: "ds1 = ds" "s1 = s" unfolding delta_var_skip [OF \<open>index a < nskip \<or> index b < nskip\<close>]
      by simp_all
    have "k < length (filter ?keep xs)" "filter ?keep xs ! k = (vn, vo)"
      using Cons.prems(3,4) False by simp_all
    from Cons.IH [OF rest rng1 this] show ?thesis unfolding same .
  next
    case True
    then have keep: "nskip \<le> index a \<and> nskip \<le> index b" by (simp add: x)
    let ?n = "num_variables ds"
    let ?d0 = "add_variable (''delta_'' @ name a) ds"
    have inner: "foldl (delta_zone ?n a b data_old) (?d0, s) zp = (ds1, s1)"
      using st unfolding delta_var_keep [OF keep] .
    have n1: "num_variables ds1 = Suc ?n"
      using one True by (simp add: num_variables_def x)
    show ?thesis
    proof (cases k)
      case 0
      then have eq: "vn = a" "vo = b" using Cons.prems(4) True x by simp_all
      have "index a \<noteq> ?n" using vn_lt eq by simp
      from inner_values [OF inner assms(2) this assms(6)]
      have v1: "vals ds1 ?n (index zn) =
           (case try_subtract (replicate (zone_points ds (index zn)) 0)
                   (vals ds (index a) (index zn)) (vals data_old (index b) (index zo)) of
              Inr d \<Rightarrow> d
            | Inl e \<Rightarrow> replicate (zone_points ds (index zn)) NaN)"
        and l1: "(\<exists>e. try_subtract (replicate (zone_points ds (index zn)) 0)
                   (vals ds (index a) (index zn)) (vals data_old (index b) (index zo)) = Inl e)
              \<longrightarrow> \<lparr>level = ''exception'', fmt = exception_format,
                    args = [S (name zo), S (name zn)]\<rparr> \<in> set (logging_errors s1)"
        using \<open>index a \<noteq> ?n\<close> by (simp_all add: add_variable_simps cong: sum.case_cong)
      have keepv: "vals ds' ?n = vals ds1 ?n" using fr n1 by simp
      have sub: "set (logging_errors s1) \<subseteq> set (logging_errors s')" using fr by blast
      show ?thesis unfolding eq using v1 l1 keepv sub 0 by auto
    next
      case (Suc k')
      have "k' < length (filter ?keep xs)" "filter ?keep xs ! k' = (vn, vo)"
        using Cons.prems(3,4) True Suc by simp_all
      note ih = Cons.IH [OF rest rng1 this]
      have rd: "vals ds1 (index vn) = vals ds (index vn)" using one vn_lt by simp
      have idx: "num_variables ds1 + k' = ?n + k" using n1 Suc by simp
      from ih show ?thesis unfolding rd idx zl .
    qed
  qed
qed


lemma two_frames:
  "with_temp_frame (\<lambda>frame_new. with_temp_frame (\<lambda>frame_old. body)) s =
     (case body (s\<lparr>frames := frames s @ [next_frame s, Suc (next_frame s)],
                  next_frame := Suc (Suc (next_frame s))\<rparr>) of
        (Inl e, s2) \<Rightarrow> (Inl e, s2)
      | (Inr x, s2) \<Rightarrow> (Inr x, delete_frame (next_frame s) (delete_frame (Suc (next_frame s)) s2)))"
  by (simp add: with_temp_frame_def add_frame_def split: prod.splits sum.splits)

lemma difference_body_selected:
  assumes "get_variables m data_new vp = Inr var_new" "get_variables m data_old vp = Inr var_old"
    "length var_new = length var_old"
    "get_zones m data_new zp = Inr zone_new" "get_zones m data_old zp = Inr zone_old"
    "length zone_new = length zone_old"
    and "foldl (delta_var nskip data_old (zip zone_new zone_old))
           (data_new, warn_mismatches ''Zone'' (zip zone_new zone_old)
                        (warn_mismatches ''Variable'' (zip var_new var_old) s))
           (zip var_new var_old) = (ds', s')"
  shows "difference_body m data_new data_old f zp vp nskip s =
     (Inr (write_dataset f ds'
             (Some ([0..<nskip] @ [num_variables data_new..<num_variables ds'])) (Some zone_new)), s')"
  using assms by (simp add: difference_body_def Let_def)

lemma zip_index_distinct:
  assumes "distinct (map index xs)" "length xs = length ys"
  shows "distinct (map (index \<circ> fst) (zip xs ys))"
proof -
  have "map (index \<circ> fst) (zip xs ys) = map index (map fst (zip xs ys))" by simp
  also have "\<dots> = map index xs" using assms(2) by (simp only: map_fst_zip)
  finally show ?thesis using assms(1) by simp
qed

lemma select_error:
  "select what prim pats = Inl e \<Longrightarrow> (\<exists>msg. e = AssertionError msg) \<or> (\<exists>msg. e = TypeError msg)"
  by (cases pats) (auto simp: select_def Let_def split: if_splits)

lemma count_mismatch_var:
  "count_mismatch what ''var_pattern'' a b s = (NameError ''var_pattern'', s)"
  "count_mismatch what ''zone_pattern'' a b s = (NameError ''zone_pattern'', s)"
  by (simp_all add: count_mismatch_def count_message_def read_global_def module_names_def)

lemma difference_body_error:
  assumes "difference_body m data_new data_old f zp vp nskip s = (Inl e, s')"
  shows "e \<noteq> RuntimeError msg"
proof -
  have sel: "\<And>what prim pats. select what prim pats \<noteq> Inl (RuntimeError msg)"
    using select_error by fastforce
  show ?thesis
    using assms sel
    by (auto simp: difference_body_def Let_def count_mismatch_var get_variables_def get_zones_def
        split: sum.splits if_splits prod.splits)
qed

lemma difference_selected:
  assumes "get_variables m data_new vp = Inr var_new" "get_variables m data_old vp = Inr var_old"
    "length var_new = length var_old"
    "get_zones m data_new zp = Inr zone_new" "get_zones m data_old zp = Inr zone_old"
    "length zone_new = length zone_old"
  shows "\<exists>ds' s2 s0.
     foldl (delta_var nskip data_old (zip zone_new zone_old)) (data_new, s0) (zip var_new var_old)
       = (ds', s2)
     \<and> difference_datasets m data_new data_old f zp vp nskip s =
       (Inr (write_dataset f ds'
               (Some ([0..<nskip] @ [num_variables data_new..<num_variables ds'])) (Some zone_new)),
        delete_frame (next_frame s) (delete_frame (Suc (next_frame s)) s2))"
proof -
  let ?s1 = "s\<lparr>frames := frames s @ [next_frame s, Suc (next_frame s)],
                next_frame := Suc (Suc (next_frame s))\<rparr>"
  let ?s0 = "warn_mismatches ''Zone'' (zip zone_new zone_old)
               (warn_mismatches ''Variable'' (zip var_new var_old) ?s1)"
  obtain ds' s2 where
    loop: "foldl (delta_var nskip data_old (zip zone_new zone_old)) (data_new, ?s0)
             (zip var_new var_old) = (ds', s2)"
    by (cases "foldl (delta_var nskip data_old (zip zone_new zone_old)) (data_new, ?s0)
             (zip var_new var_old)")
  have "difference_datasets m data_new data_old f zp vp nskip s =
       (Inr (write_dataset f ds'
               (Some ([0..<nskip] @ [num_variables data_new..<num_variables ds'])) (Some zone_new)),
        delete_frame (next_frame s) (delete_frame (Suc (next_frame s)) s2))"
    unfolding difference_datasets_def two_frames
      difference_body_selected [OF assms loop] by simp
  with loop show ?thesis by blast
qed

text \<open>
  C4. \<^verbatim>\<open>difference_datasets\<close> never fails with the \<^verbatim>\<open>RuntimeError\<close> of its count
  checks. With four selected variables against three it raises \<^verbatim>\<open>NameError\<close> for
  \<^verbatim>\<open>var_pattern\<close>, and with equal variable counts and two zones against one it raises
  \<^verbatim>\<open>NameError\<close> for \<^verbatim>\<open>zone_pattern\<close>; nothing is logged, and both temporary frames
  stay on the page.
\<close>

theorem count_mismatch_raises_NameError:
  "fst (difference_datasets m data_new data_old f zp vp nskip s) \<noteq> Inl (RuntimeError msg)
   \<and> difference_datasets fnmatch run_new run_short ''d.plt'' PNone PNone 3 fresh_session
       = (Inl (NameError ''var_pattern''), fresh_session\<lparr>frames := [0, 1], next_frame := 2\<rparr>)
   \<and> difference_datasets fnmatch run_new run_short ''d.plt'' PNone (PList [''x'', ''y'']) 3
         fresh_session
       = (Inl (NameError ''zone_pattern''), fresh_session\<lparr>frames := [0, 1], next_frame := 2\<rparr>)"
proof -
  have 1: "fst (difference_datasets m data_new data_old f zp vp nskip s) \<noteq> Inl (RuntimeError msg)"
    unfolding difference_datasets_def two_frames
    using difference_body_error [of m data_new data_old f zp vp nskip _ _ _ msg]
    by (auto split: prod.splits sum.splits)
  have 2: "difference_datasets fnmatch run_new run_short ''d.plt'' PNone PNone 3 fresh_session
       = (Inl (NameError ''var_pattern''), fresh_session\<lparr>frames := [0, 1], next_frame := 2\<rparr>)"
    unfolding difference_datasets_def two_frames
    by (simp add: difference_body_def get_variables_def select_def ds_variables_def entities_def
        run_new_def run_short_def count_mismatch_var fresh_session_def)
  have 3: "difference_datasets fnmatch run_new run_short ''d.plt'' PNone (PList [''x'', ''y'']) 3
         fresh_session
       = (Inl (NameError ''zone_pattern''), fresh_session\<lparr>frames := [0, 1], next_frame := 2\<rparr>)"
    unfolding difference_datasets_def two_frames
    by (simp add: difference_body_def get_variables_def get_zones_def select_def collect_def
        ds_variables_def ds_zones_def entities_def run_new_def run_short_def count_mismatch_var
        fresh_session_def warn_mismatches_def Let_def)
  from 1 2 3 show ?thesis by blast
qed

text \<open>
  When both selections succeed with equal counts, \<^verbatim>\<open>difference_datasets\<close> returns its
  output whatever the subtractions do. For the \<open>k\<close>-th variable pair that is not skipped
  and every selected zone pair, the delta variable's array in the new zone is the
  difference when that pair's \<^verbatim>\<open>try\<close> body succeeds, and not-a-number throughout
  (one per point of the zone) when it fails; it depends on no other pair. The record of a
  failing pair is among those the logging library could not render.
\<close>

lemma difference_delta_values:
  assumes "get_variables m data_new vp = Inr var_new" "get_variables m data_old vp = Inr var_old"
    "length var_new = length var_old"
    "get_zones m data_new zp = Inr zone_new" "get_zones m data_old zp = Inr zone_old"
    "length zone_new = length zone_old"
    and "k < length (filter (\<lambda>vv. nskip \<le> index (fst vv) \<and> nskip \<le> index (snd vv))
                       (zip var_new var_old))"
    and "filter (\<lambda>vv. nskip \<le> index (fst vv) \<and> nskip \<le> index (snd vv))
           (zip var_new var_old) ! k = (vn, vo)"
    and "(zn, zo) \<in> set (zip zone_new zone_old)"
  shows "\<exists>out s'.
     difference_datasets m data_new data_old f zp vp nskip s = (Inr out, s')
     \<and> vals (data out) (num_variables data_new + k) (index zn) =
         (case try_subtract (replicate (zone_points data_new (index zn)) 0)
                 (vals data_new (index vn) (index zn)) (vals data_old (index vo) (index zo)) of
            Inr d \<Rightarrow> d
          | Inl e \<Rightarrow> replicate (zone_points data_new (index zn)) NaN)
     \<and> ((\<exists>e. try_subtract (replicate (zone_points data_new (index zn)) 0)
                 (vals data_new (index vn) (index zn)) (vals data_old (index vo) (index zo)) = Inl e)
          \<longrightarrow> \<lparr>level = ''exception'', fmt = exception_format,
                args = [S (name zo), S (name zn)]\<rparr> \<in> set (logging_errors s'))"
proof -
  from difference_selected [OF assms(1-6), where nskip = nskip and f = f and s = s] obtain ds' s2 s0 where
    loop: "foldl (delta_var nskip data_old (zip zone_new zone_old)) (data_new, s0)
             (zip var_new var_old) = (ds', s2)"
    and res: "difference_datasets m data_new data_old f zp vp nskip s =
       (Inr (write_dataset f ds'
               (Some ([0..<nskip] @ [num_variables data_new..<num_variables ds'])) (Some zone_new)),
        delete_frame (next_frame s) (delete_frame (Suc (next_frame s)) s2))"
    by blast
  have dz: "distinct (map (index \<circ> fst) (zip zone_new zone_old))"
    using get_zones_entities [OF assms(4)] assms(6) by (intro zip_index_distinct) simp_all
  have rng: "\<forall>vv \<in> set (zip var_new var_old). index (fst vv) < num_variables data_new"
  proof
    fix vv assume "vv \<in> set (zip var_new var_old)"
    then have "fst vv \<in> set var_new" by (metis prod.collapse set_zip_leftD)
    then show "index (fst vv) < num_variables data_new"
      using get_variables_entities [OF assms(1)] by blast
  qed
  note v = outer_values [OF loop dz rng assms(7) assms(8) assms(9)]
  show ?thesis
    unfolding res using v by (simp add: write_dataset_def delete_frame_def)
qed

text \<open>
  C8. For \<open>run_new\<close> against \<open>run_old\<close> the zone pair \<open>b\<close> (three points against
  four) cannot be subtracted. The operation returns its output, the delta of \<open>p\<close> is
  not-a-number throughout in zone \<open>b\<close> and the difference in zone \<open>a\<close>; but the failure
  is not logged: \<^verbatim>\<open>LOG.exception\<close> is called with three specifiers and two arguments,
  the record cannot be rendered, and the log stays empty.
\<close>

theorem difference_failure_not_logged:
  "\<exists>out s'.
     difference_datasets fnmatch run_new run_old ''d.plt'' PNone PNone 3 fresh_session = (Inr out, s')
     \<and> vals (data out) 4 1 = [NaN, NaN, NaN]
     \<and> vals (data out) 4 0 = [Num 4, Num 6]
     \<and> log s' = []
     \<and> logging_errors s'
         = [\<lparr>level = ''exception'', fmt = exception_format, args = [S ''b'', S ''b'']\<rparr>]"
  unfolding difference_datasets_def two_frames
  by (simp add: difference_body_def get_variables_def get_zones_def select_def ds_variables_def
      ds_zones_def entities_def run_new_def run_old_def warn_mismatches_def delta_var_def
      delta_zone_def add_variable_def num_variables_def zone_points_def num_points_def
      try_subtract_def np_subtract_def assign_all_def zero_fval_def set_values_def LOG_exception
      write_dataset_def delete_frame_def fresh_session_def Let_def numeral_3_eq_3)

text \<open>
  C9. When both selections succeed with equal counts, the dataset handed to the writer is
  the new dataset followed by one variable \<^verbatim>\<open>delta_<new name>\<close> for each positional
  variable pair whose two indices are both at least \<open>nskip\<close>, in pair order, and by no
  other variable; the variables of the new dataset keep their values; the indices written
  are those below \<open>nskip\<close> followed by those of the delta variables, so no index from
  \<open>nskip\<close> up to the number of original variables is written; the zones written are the
  zones selected in the new dataset.
\<close>

theorem difference_output_variables:
  assumes "get_variables m data_new vp = Inr var_new" "get_variables m data_old vp = Inr var_old"
    "length var_new = length var_old"
    "get_zones m data_new zp = Inr zone_new" "get_zones m data_old zp = Inr zone_old"
    "length zone_new = length zone_old"
  shows "\<exists>out s'.
     difference_datasets m data_new data_old f zp vp nskip s = (Inr out, s')
     \<and> variable_names (data out) = variable_names data_new
          @ map (\<lambda>vv. ''delta_'' @ name (fst vv))
              (filter (\<lambda>vv. nskip \<le> index (fst vv) \<and> nskip \<le> index (snd vv))
                 (zip var_new var_old))
     \<and> zone_list (data out) = zone_list data_new
     \<and> (\<forall>v. v < num_variables data_new \<longrightarrow> vals (data out) v = vals data_new v)
     \<and> saved_variables out =
         Some ([0..<nskip] @ [num_variables data_new..<num_variables (data out)])
     \<and> (\<forall>i. nskip \<le> i \<and> i < num_variables data_new \<longrightarrow>
            i \<notin> set ([0..<nskip] @ [num_variables data_new..<num_variables (data out)]))
     \<and> saved_zones out = Some zone_new"
proof -
  from difference_selected [OF assms(1-6), where nskip = nskip and f = f and s = s] obtain ds' s2 s0 where
    loop: "foldl (delta_var nskip data_old (zip zone_new zone_old)) (data_new, s0)
             (zip var_new var_old) = (ds', s2)"
    and res: "difference_datasets m data_new data_old f zp vp nskip s =
       (Inr (write_dataset f ds'
               (Some ([0..<nskip] @ [num_variables data_new..<num_variables ds'])) (Some zone_new)),
        delete_frame (next_frame s) (delete_frame (Suc (next_frame s)) s2))"
    by blast
  note fr = outer_loop [OF loop]
  show ?thesis
    unfolding res using fr by (simp add: write_dataset_def)
qed

theorem difference_output_variables_witness:
  "\<exists>out s'.
     difference_datasets fnmatch run_new run_old ''d.plt'' PNone PNone 3 fresh_session = (Inr out, s')
     \<and> variable_names (data out) = [''x'', ''y'', ''z'', ''p'', ''delta_p'']
     \<and> saved_variables out = Some [0, 1, 2, 4]
     \<and> saved_zones out = Some [\<lparr>name = ''a'', index = 0\<rparr>, \<lparr>name = ''b'', index = 1\<rparr>]"
proof -
  let ?x = "\<lparr>name = ''x'', index = 0\<rparr>" and ?y = "\<lparr>name = ''y'', index = 1\<rparr>"
  let ?z = "\<lparr>name = ''z'', index = 2\<rparr>" and ?p = "\<lparr>name = ''p'', index = 3\<rparr>"
  let ?a = "\<lparr>name = ''a'', index = 0\<rparr>" and ?b = "\<lparr>name = ''b'', index = 1\<rparr>"
  have gv: "get_variables fnmatch run_new PNone = Inr [?x, ?y, ?z, ?p]"
    "get_variables fnmatch run_old PNone = Inr [?x, ?y, ?z, ?p]"
    by (simp_all add: get_variables_def select_def ds_variables_def entities_def run_new_def
        run_old_def)
  have gz: "get_zones fnmatch run_new PNone = Inr [?a, ?b]"
    "get_zones fnmatch run_old PNone = Inr [?a, ?b]"
    by (simp_all add: get_zones_def select_def ds_zones_def entities_def run_new_def run_old_def)
  have len: "length [?x, ?y, ?z, ?p] = length [?x, ?y, ?z, ?p]" "length [?a, ?b] = length [?a, ?b]"
    by simp_all
  let ?D = "difference_datasets fnmatch run_new run_old ''d.plt'' PNone PNone 3 fresh_session"
  have f: "filter (\<lambda>vv. 3 \<le> index (fst vv) \<and> 3 \<le> index (snd vv))
             (zip [?x, ?y, ?z, ?p] [?x, ?y, ?z, ?p]) = [(?p, ?p)]"
    by simp
  have n: "num_variables run_new = 4" "variable_names run_new = [''x'', ''y'', ''z'', ''p'']"
    by (simp_all add: run_new_def num_variables_def)
  from difference_output_variables
         [OF gv(1) gv(2) len(1) gz(1) gz(2) len(2),
           where nskip = 3 and f = "''d.plt''" and s = fresh_session]
  obtain out s' where r: "?D = (Inr out, s')"
    and vn: "variable_names (data out) = [''x'', ''y'', ''z'', ''p''] @ [''delta_p'']"
    and sv: "saved_variables out = Some ([0..<3] @ [4..<num_variables (data out)])"
    and sz: "saved_zones out = Some [?a, ?b]"
    unfolding f n by auto
  have "num_variables (data out) = 5" using vn by (simp add: num_variables_def)
  then have "saved_variables out = Some [0, 1, 2, 4]"
    using sv by (simp add: upt_conv_Cons numeral_3_eq_3)
  with r vn sz show ?thesis by auto
qed

section \<open>Properties of revolve_dataset\<close>

lemma efold_append:
  "efold f (xs @ ys) s = (case efold f xs s of Inl e \<Rightarrow> Inl e | Inr s' \<Rightarrow> efold f ys s')"
  by (induction xs arbitrary: s) (auto split: sum.splits)

lemma efold_preserves:
  assumes "efold f xs s = Inr s'"
    and "\<And>x t t'. x \<in> set xs \<Longrightarrow> f x t = Inr t' \<Longrightarrow> q t' = q t"
  shows "q s' = q s"
  using assms
proof (induction xs arbitrary: s)
  case Nil
  then show ?case by simp
next
  case (Cons x xs)
  from Cons.prems(1) obtain t where t: "f x s = Inr t" and r: "efold f xs t = Inr s'"
    by (auto split: sum.splits)
  have "q s' = q t" by (rule Cons.IH [OF r]) (use Cons.prems(2) in auto)
  moreover have "q t = q s" using Cons.prems(2) [of x s t] t by simp
  ultimately show ?case by simp
qed

lemma efold_invariant:
  assumes "I s"
    and "\<And>x t. x \<in> set xs \<Longrightarrow> I t \<Longrightarrow> \<exists>t'. f x t = Inr t' \<and> I t'"
  shows "\<exists>s'. efold f xs s = Inr s' \<and> I s'"
  using assms
proof (induction xs arbitrary: s)
  case Nil
  then show ?case by simp
next
  case (Cons x xs)
  from Cons.prems(2) [of x s] Cons.prems(1) obtain t where t: "f x s = Inr t" "I t" by auto
  from Cons.IH [OF t(2)] Cons.prems(2) obtain s' where "efold f xs t = Inr s'" "I s'" by auto
  with t show ?case by auto
qed

lemma write_block_Inr:
  assumes "write_block v z k npt xs ds = Inr ds'"
  shows "ds' = set_values v z (take (k * npt) (vals ds v z) @ xs @ drop ((k + 1) * npt) (vals ds v z)) ds"
    and "(k + 1) * npt \<le> length (vals ds v z)" and "length xs = npt"
  using assms by (auto simp: write_block_def assign_slice_def split: if_splits)

lemma write_block_ok:
  assumes "(k + 1) * npt \<le> length (vals ds v z)" "length xs = npt"
  shows "write_block v z k npt xs ds
     = Inr (set_values v z (take (k * npt) (vals ds v z) @ xs @ drop ((k + 1) * npt) (vals ds v z)) ds)"
  using assms by (simp add: write_block_def assign_slice_def)

lemma set_values_simps:
  "variable_names (set_values v z xs ds) = variable_names ds"
  "zone_list (set_values v z xs ds) = zone_list ds"
  "vals (set_values v z xs ds) v z = xs"
  "v' \<noteq> v \<or> z' \<noteq> z \<Longrightarrow> vals (set_values v z xs ds) v' z' = vals ds v' z'"
  "set_values v z xs (set_values v z ys ds) = set_values v z xs ds"
  by (auto simp: set_values_def)

lemma fill_prefix:
  assumes "length (vals ds v z) = planes * npt" "\<forall>k < planes. length (blk k) = npt" "n \<le> planes"
  shows "efold (\<lambda>k. write_block v z k npt (blk k)) [0..<n] ds
     = Inr (set_values v z (concat (map blk [0..<n]) @ drop (n * npt) (vals ds v z)) ds)"
  using assms(3)
proof (induction n)
  case 0
  then show ?case by (simp add: set_values_def)
next
  case (Suc n)
  let ?arr = "vals ds v z"
  let ?pre = "concat (map blk [0..<n])"
  let ?d = "set_values v z (?pre @ drop (n * npt) ?arr) ds"
  have ih: "efold (\<lambda>k. write_block v z k npt (blk k)) [0..<n] ds = Inr ?d"
    using Suc by simp
  have lp: "length ?pre = n * npt"
    using assms(2) Suc.prems by (induction n) auto
  have le: "(n + 1) * npt \<le> planes * npt" using mult_le_mono1 [OF Suc.prems, of npt] by simp
  have lb: "length (blk n) = npt" using assms(2) Suc.prems by simp
  have len: "length (vals ?d v z) = planes * npt"
    using lp assms(1) Suc.prems le by (simp add: set_values_simps)
  have wb: "write_block v z n npt (blk n) ?d
     = Inr (set_values v z (take (n * npt) (vals ?d v z) @ blk n @ drop ((n + 1) * npt) (vals ?d v z)) ?d)"
    using le len lb by (intro write_block_ok) simp_all
  have t: "take (n * npt) (vals ?d v z) = ?pre" using lp by (simp add: set_values_simps)
  have dr: "drop ((n + 1) * npt) (vals ?d v z) = drop (Suc n * npt) ?arr"
    using lp by (simp add: set_values_simps add.commute)
  have wb': "write_block v z n npt (blk n) ?d
     = Inr (set_values v z (?pre @ blk n @ drop (Suc n * npt) ?arr) ds)"
    unfolding wb t dr by (simp only: set_values_simps(5))
  show ?case
    unfolding upt_Suc_append [OF le0] efold_append ih
    by (simp add: wb')
qed

lemma fill_all:
  assumes "length (vals ds v z) = planes * npt" "\<forall>k < planes. length (blk k) = npt"
  shows "efold (\<lambda>k. write_block v z k npt (blk k)) [0..<planes] ds
     = Inr (set_values v z (concat (map blk [0..<planes])) ds)"
  using fill_prefix [OF assms, of planes] assms(1) by simp


lemma set_values_commute:
  "a \<noteq> b \<Longrightarrow> set_values a z xs (set_values b z ys ds) = set_values b z ys (set_values a z xs ds)"
  by (auto simp: set_values_def fun_upd_twist)

lemma concat_blocks_length:
  "\<forall>k < n. length (blk k) = npt \<Longrightarrow> length (concat (map blk [0..<n])) = n * npt"
  by (induction n) auto

lemma vector_prefix:
  assumes "length (vals ds iy z) = planes * npt" "length (vals ds iz z) = planes * npt"
    "length vin = npt" "n \<le> planes"
  shows "efold (vector_plane iy iz z npt ct st vin) [0..<n] ds
     = Inr (set_values iz z
              (concat (map (\<lambda>k. map (\<lambda>x. x * st ! k) vin) [0..<n]) @ drop (n * npt) (vals ds iz z))
              (set_values iy z
                 (concat (map (\<lambda>k. map (\<lambda>x. x * ct ! k) vin) [0..<n]) @ drop (n * npt) (vals ds iy z))
                 ds))"
  using assms(4)
proof (induction n)
  case 0
  then show ?case by (simp add: set_values_def)
next
  case (Suc n)
  let ?by = "\<lambda>k. map (\<lambda>x. x * ct ! k) vin" and ?bz = "\<lambda>k. map (\<lambda>x. x * st ! k) vin"
  let ?cy = "concat (map ?by [0..<n])" and ?cz = "concat (map ?bz [0..<n])"
  let ?ay = "vals ds iy z" and ?az = "vals ds iz z"
  let ?d = "set_values iz z (?cz @ drop (n * npt) ?az) (set_values iy z (?cy @ drop (n * npt) ?ay) ds)"
  have ih: "efold (vector_plane iy iz z npt ct st vin) [0..<n] ds = Inr ?d"
    using Suc by simp
  have ly: "length ?cy = n * npt" and lz: "length ?cz = n * npt"
    using assms(3) by (simp_all add: concat_blocks_length)
  have le: "(n + 1) * npt \<le> planes * npt" using mult_le_mono1 [OF Suc.prems, of npt] by simp
  have lb: "length (?by n) = npt" "length (?bz n) = npt" using assms(3) by simp_all
  let ?goal = "set_values iz z (?cz @ ?bz n @ drop (Suc n * npt) ?az)
                 (set_values iy z (?cy @ ?by n @ drop (Suc n * npt) ?ay) ds)"
  have step: "vector_plane iy iz z npt ct st vin n ?d = Inr ?goal"
  proof (cases "iy = iz")
    case True
    have d: "?d = set_values iz z (?cz @ drop (n * npt) ?az) ds"
      unfolding True by (simp only: set_values_simps(5))
    let ?d1 = "set_values iz z (?cz @ ?by n @ drop (Suc n * npt) ?az) ds"
    have w1: "write_block iz z n npt (?by n) ?d = Inr ?d1"
    proof -
      have "length (vals ?d iz z) = planes * npt"
        using lz assms(2) le by (simp add: set_values_simps)
      then have "write_block iz z n npt (?by n) ?d
        = Inr (set_values iz z (take (n * npt) (vals ?d iz z) @ ?by n
                 @ drop ((n + 1) * npt) (vals ?d iz z)) ?d)"
        using le lb by (intro write_block_ok) simp_all
      moreover have "take (n * npt) (vals ?d iz z) = ?cz" using lz by (simp add: set_values_simps)
      moreover have "drop ((n + 1) * npt) (vals ?d iz z) = drop (Suc n * npt) ?az"
        using lz by (simp add: set_values_simps add.commute)
      ultimately show ?thesis unfolding d by (simp only: set_values_simps(5))
    qed
    have w2: "write_block iz z n npt (?bz n) ?d1 = Inr (set_values iz z (?cz @ ?bz n @ drop (Suc n * npt) ?az) ds)"
    proof -
      have "length (vals ?d1 iz z) = planes * npt"
        using lz lb assms(2) le by (simp add: set_values_simps)
      then have "write_block iz z n npt (?bz n) ?d1
        = Inr (set_values iz z (take (n * npt) (vals ?d1 iz z) @ ?bz n
                 @ drop ((n + 1) * npt) (vals ?d1 iz z)) ?d1)"
        using le lb by (intro write_block_ok) simp_all
      moreover have "take (n * npt) (vals ?d1 iz z) = ?cz" using lz by (simp add: set_values_simps)
      moreover have "drop ((n + 1) * npt) (vals ?d1 iz z) = drop (Suc n * npt) ?az"
        using lz lb by (simp add: set_values_simps add.commute)
      ultimately show ?thesis by (simp only: set_values_simps(5))
    qed
    have g: "?goal = set_values iz z (?cz @ ?bz n @ drop (Suc n * npt) ?az) ds"
      unfolding True by (simp only: set_values_simps(5))
    have "vector_plane iz iz z npt ct st vin n ?d = Inr (set_values iz z (?cz @ ?bz n @ drop (Suc n * npt) ?az) ds)"
      unfolding vector_plane_def w1 using w2 by simp
    then show ?thesis unfolding True by (simp only: set_values_simps(5))
  next
    case False
    let ?d1 = "set_values iz z (?cz @ drop (n * npt) ?az)
                 (set_values iy z (?cy @ ?by n @ drop (Suc n * npt) ?ay) ds)"
    have w1: "write_block iy z n npt (?by n) ?d = Inr ?d1"
    proof -
      have vy: "vals ?d iy z = ?cy @ drop (n * npt) ?ay" using False by (simp add: set_values_simps)
      have "length (vals ?d iy z) = planes * npt"
        unfolding vy using ly assms(1) le by simp
      then have "write_block iy z n npt (?by n) ?d
        = Inr (set_values iy z (take (n * npt) (vals ?d iy z) @ ?by n
                 @ drop ((n + 1) * npt) (vals ?d iy z)) ?d)"
        using le lb by (intro write_block_ok) simp_all
      moreover have "take (n * npt) (vals ?d iy z) = ?cy" unfolding vy using ly by simp
      moreover have "drop ((n + 1) * npt) (vals ?d iy z) = drop (Suc n * npt) ?ay"
        unfolding vy using ly by (simp add: add.commute)
      moreover have "set_values iy z xs ?d = set_values iz z (?cz @ drop (n * npt) ?az) (set_values iy z xs ds)" for xs
        using False by (simp add: set_values_commute set_values_simps(5))
      ultimately show ?thesis by simp
    qed
    have w2: "write_block iz z n npt (?bz n) ?d1 = Inr ?goal"
    proof -
      have vz: "vals ?d1 iz z = ?cz @ drop (n * npt) ?az" by (simp add: set_values_simps)
      have "length (vals ?d1 iz z) = planes * npt"
        unfolding vz using lz assms(2) le by simp
      then have "write_block iz z n npt (?bz n) ?d1
        = Inr (set_values iz z (take (n * npt) (vals ?d1 iz z) @ ?bz n
                 @ drop ((n + 1) * npt) (vals ?d1 iz z)) ?d1)"
        using le lb by (intro write_block_ok) simp_all
      moreover have "take (n * npt) (vals ?d1 iz z) = ?cz" unfolding vz using lz by simp
      moreover have "drop ((n + 1) * npt) (vals ?d1 iz z) = drop (Suc n * npt) ?az"
        unfolding vz using lz by (simp add: add.commute)
      ultimately show ?thesis by (simp only: set_values_simps(5))
    qed
    show ?thesis unfolding vector_plane_def using w1 w2 by simp
  qed
  show ?case
    unfolding upt_Suc_append [OF le0] efold_append ih
    by (simp add: step)
qed

lemma vector_all:
  assumes "length (vals ds iy z) = planes * npt" "length (vals ds iz z) = planes * npt"
    "length vin = npt"
  shows "efold (vector_plane iy iz z npt ct st vin) [0..<planes] ds
     = Inr (set_values iz z (concat (map (\<lambda>k. map (\<lambda>x. x * st ! k) vin) [0..<planes]))
              (set_values iy z (concat (map (\<lambda>k. map (\<lambda>x. x * ct ! k) vin) [0..<planes])) ds))"
  using vector_prefix [OF assms, of planes] assms(1,2) by simp

lemma name_index_Some: "name_index ns n = Some i \<Longrightarrow> i < length ns \<and> ns ! i = n"
  by (induction ns arbitrary: i) (auto split: if_splits)

lemma name_index_mem: "n \<in> set ns \<Longrightarrow> \<exists>i. name_index ns n = Some i"
  by (induction ns) auto

lemma name_index_None: "name_index ns n = None \<longleftrightarrow> n \<notin> set ns"
  by (induction ns) auto

lemma name_index_inj: "name_index ns a = Some i \<Longrightarrow> name_index ns b = Some i \<Longrightarrow> a = b"
  using name_index_Some by blast

lemma name_index_append: "n \<in> set ns \<Longrightarrow> name_index (ns @ ms) n = name_index ns n"
  by (induction ns) auto

lemma add_components_names:
  "variable_names (add_components V cs d) = variable_names d @ filter (\<lambda>c. c \<notin> set V) cs
   \<and> zone_list (add_components V cs d) = zone_list d"
  unfolding add_components_def
  by (induction cs arbitrary: d) (auto simp: add_variable_def)

lemma build_step_names:
  "variable_names (case map_of vv v of None \<Rightarrow> add_variable v d
                   | Some (vy, vz) \<Rightarrow> add_components V [vy, vz] (add_variable v d))
     = variable_names d @ v # (case map_of vv v of None \<Rightarrow> []
                               | Some (vy, vz) \<Rightarrow> filter (\<lambda>c. c \<notin> set V) [vy, vz])
   \<and> zone_list (case map_of vv v of None \<Rightarrow> add_variable v d
                   | Some (vy, vz) \<Rightarrow> add_components V [vy, vz] (add_variable v d)) = zone_list d"
  by (auto simp: add_components_names add_variable_def split: option.splits)

lemma build_names_aux:
  "variable_names (foldl (\<lambda>d v. case map_of vv v of None \<Rightarrow> add_variable v d
                   | Some (vy, vz) \<Rightarrow> add_components V [vy, vz] (add_variable v d)) d xs)
     = variable_names d @ concat (map (\<lambda>v. v # (case map_of vv v of None \<Rightarrow> []
                               | Some (vy, vz) \<Rightarrow> filter (\<lambda>c. c \<notin> set V) [vy, vz])) xs)
   \<and> zone_list (foldl (\<lambda>d v. case map_of vv v of None \<Rightarrow> add_variable v d
                   | Some (vy, vz) \<Rightarrow> add_components V [vy, vz] (add_variable v d)) d xs) = zone_list d"
proof (induction xs arbitrary: d)
  case Nil
  then show ?case by simp
next
  case (Cons x xs)
  let ?d1 = "case map_of vv x of None \<Rightarrow> add_variable x d
             | Some (vy, vz) \<Rightarrow> add_components V [vy, vz] (add_variable x d)"
  note ih = Cons.IH [of ?d1]
  note st = build_step_names [where vv = vv and v = x and d = d and V = V]
  from ih st show ?case by (simp only: foldl_Cons list.map concat.simps append_assoc append_Cons)
qed

lemma build_variables_names:
  "variable_names (build_variables V vv create_dataset)
     = concat (map (\<lambda>v. v # (case map_of vv v of None \<Rightarrow> []
                               | Some (vy, vz) \<Rightarrow> filter (\<lambda>c. c \<notin> set V) [vy, vz])) V)"
  "zone_list (build_variables V vv create_dataset) = []"
  unfolding build_variables_def using build_names_aux [where vv = vv and V = V and d = create_dataset and xs = V]
  by (simp_all add: create_dataset_def)

lemma copy_const: "concat (map (\<lambda>k. vin) [0..<planes]) = concat (replicate planes vin)"
  by (simp add: map_replicate_const)

lemma revolve_variable_unmapped:
  assumes "values_by_name data_in zi v = Inr vin" "length vin = npt"
    and "name_index (variable_names d) v = Some iv"
    and "length (vals d iv zo) = planes * npt"
    and "map_of vv v = None"
  shows "revolve_variable data_in zi zo npt planes ct st vv v d
     = Inr (set_values iv zo (concat (map (\<lambda>k. vin) [0..<planes])) d)"
  using assms fill_all [of d iv zo planes npt "\<lambda>k. vin"]
  by (simp add: revolve_variable_def)

lemma revolve_variable_mapped:
  assumes "values_by_name data_in zi v = Inr vin" "length vin = npt"
    and "name_index (variable_names d) v = Some iv"
    and "length (vals d iv zo) = planes * npt"
    and "map_of vv v = Some (vy, vz)"
    and "name_index (variable_names d) vy = Some iy" "name_index (variable_names d) vz = Some iz"
    and "length (vals d iy zo) = planes * npt" "length (vals d iz zo) = planes * npt"
  shows "revolve_variable data_in zi zo npt planes ct st vv v d
     = Inr (set_values iz zo (concat (map (\<lambda>k. map (\<lambda>x. x * st ! k) vin) [0..<planes]))
             (set_values iy zo (concat (map (\<lambda>k. map (\<lambda>x. x * ct ! k) vin) [0..<planes]))
               (set_values iv zo (concat (map (\<lambda>k. vin) [0..<planes])) d)))"
proof -
  let ?d1 = "set_values iv zo (concat (map (\<lambda>k. vin) [0..<planes])) d"
  have c: "efold (\<lambda>k. write_block iv zo k npt vin) [0..<planes] d = Inr ?d1"
    using fill_all [of d iv zo planes npt "\<lambda>k. vin"] assms(2,4) by simp
  have lc: "length (concat (map (\<lambda>k. vin) [0..<planes])) = planes * npt"
    using assms(2) by (simp add: concat_blocks_length)
  have l: "length (vals ?d1 iy zo) = planes * npt" "length (vals ?d1 iz zo) = planes * npt"
    using assms(8,9) lc by (auto simp: set_values_def)
  have n: "variable_names ?d1 = variable_names d" by (simp add: set_values_simps)
  from vector_all [OF l assms(2), of ct st]
  show ?thesis
    using assms(1,3,5,6,7) by (simp add: revolve_variable_def c n)
qed

lemma two_frames_out:
  "with_temp_frame (\<lambda>frame_in. with_temp_frame (\<lambda>frame_out. body frame_out)) s =
     (case body (Suc (next_frame s))
             (s\<lparr>frames := frames s @ [next_frame s, Suc (next_frame s)],
                next_frame := Suc (Suc (next_frame s))\<rparr>) of
        (Inl e, s2) \<Rightarrow> (Inl e, s2)
      | (Inr x, s2) \<Rightarrow> (Inr x, delete_frame (next_frame s) (delete_frame (Suc (next_frame s)) s2)))"
  by (simp add: with_temp_frame_def add_frame_def split: prod.splits sum.splits)


lemma write_block_struct:
  "write_block v z k npt xs ds = Inr ds' \<Longrightarrow>
     variable_names ds' = variable_names ds \<and> zone_list ds' = zone_list ds"
  by (auto simp: write_block_def set_values_def split: sum.splits)

lemma vector_plane_struct:
  "vector_plane iy iz zo npt ct st vin k ds = Inr ds' \<Longrightarrow>
     variable_names ds' = variable_names ds \<and> zone_list ds' = zone_list ds"
  by (auto simp: vector_plane_def write_block_def set_values_def split: sum.splits)

lemma revolve_variable_struct:
  assumes "revolve_variable data_in zi zo npt planes ct st vv v ds = Inr ds'"
  shows "variable_names ds' = variable_names ds \<and> zone_list ds' = zone_list ds"
proof -
  let ?q = "\<lambda>d. (variable_names d, zone_list d)"
  have a: "efold (\<lambda>k. write_block iv zo k npt vin) ks d = Inr d' \<Longrightarrow> ?q d' = ?q d" for iv vin ks d d'
    by (rule efold_preserves [where q = ?q]) (auto dest: write_block_struct)
  have b: "efold (vector_plane iy iz zo npt ct st vin) ks d = Inr d' \<Longrightarrow> ?q d' = ?q d" for iy iz vin ks d d'
    by (rule efold_preserves [where q = ?q]) (auto dest: vector_plane_struct)
  from assms have "?q ds' = ?q ds"
    by (auto simp: revolve_variable_def split: sum.splits option.splits dest!: a b)
  then show ?thesis by simp
qed

lemma variable_loop_struct:
  assumes "efold (revolve_variable data_in zi zo npt planes ct st vv) vs ds = Inr ds'"
  shows "variable_names ds' = variable_names ds \<and> zone_list ds' = zone_list ds"
proof -
  let ?q = "\<lambda>d. (variable_names d, zone_list d)"
  have "?q ds' = ?q ds"
    by (rule efold_preserves [where q = ?q, OF assms]) (auto dest: revolve_variable_struct)
  then show ?thesis by simp
qed

lemma revolve_zone_struct:
  assumes "revolve_zone data_in planes ct st vv (zi, zin) ds = Inr ds'"
  shows "variable_names ds' = variable_names ds
       \<and> zone_list ds' = zone_list ds
            @ [\<lparr>zone_name = zone_name zin, ordered = True,
                 rank = length (take (rank zin) (dimensions zin) @ [planes]),
                 dimensions = take (rank zin) (dimensions zin) @ [planes]\<rparr>]"
  using assms
  by (auto simp: revolve_zone_def add_ordered_zone_def split: if_splits dest!: variable_loop_struct)

lemma zone_loop_struct:
  assumes "efold (revolve_zone data_in planes ct st vv) izs ds = Inr ds'"
  shows "variable_names ds' = variable_names ds
       \<and> map dimensions (zone_list ds') = map dimensions (zone_list ds)
            @ map (\<lambda>iz. take (rank (snd iz)) (dimensions (snd iz)) @ [planes]) izs
       \<and> map zone_name (zone_list ds') = map zone_name (zone_list ds) @ map (\<lambda>iz. zone_name (snd iz)) izs"
  using assms
proof (induction izs arbitrary: ds)
  case Nil
  then show ?case by simp
next
  case (Cons x xs)
  obtain zi zin where x: "x = (zi, zin)" by (cases x)
  from Cons.prems obtain d1 where
    st: "revolve_zone data_in planes ct st vv (zi, zin) ds = Inr d1"
    and rest: "efold (revolve_zone data_in planes ct st vv) xs d1 = Inr ds'"
    by (auto simp: x split: sum.splits)
  from revolve_zone_struct [OF st] Cons.IH [OF rest] show ?case by (simp add: x)
qed

lemma revolve_body_Inr:
  assumes "revolve_body datafile_in data_in datafile_out radial_coord planes angle vector_vars frame_out s
             = (Inr out, s')"
  shows "\<exists>rc dz d.
     radial_dict (variable_names data_in) radial_coord = Inr (rc, dz)
     \<and> efold (revolve_zone data_in planes (map cos (linspace 0 (radians angle) planes))
                 (map sin (linspace 0 (radians angle) planes))
                 (dict_update rc (vector_dict vector_vars)))
          (enumerate 0 (zone_list data_in))
          (build_variables (variable_names data_in) (dict_update rc (vector_dict vector_vars))
             create_dataset) = Inr d
     \<and> out = write_dataset datafile_out d None None"
  using assms
  by (auto simp: revolve_body_def Let_def split: if_splits sum.splits list.splits option.splits prod.splits)

lemma revolve_dataset_Inr:
  assumes "revolve_dataset datafile_in data_in datafile_out radial_coord planes angle vector_vars s
             = (Inr out, s')"
  shows "\<exists>rc dz d.
     radial_dict (variable_names data_in) radial_coord = Inr (rc, dz)
     \<and> efold (revolve_zone data_in planes (map cos (linspace 0 (radians angle) planes))
                 (map sin (linspace 0 (radians angle) planes))
                 (dict_update rc (vector_dict vector_vars)))
          (enumerate 0 (zone_list data_in))
          (build_variables (variable_names data_in) (dict_update rc (vector_dict vector_vars))
             create_dataset) = Inr d
     \<and> out = write_dataset datafile_out d None None"
proof -
  from assms obtain s2 where
    "revolve_body datafile_in data_in datafile_out radial_coord planes angle vector_vars
       (Suc (next_frame s))
       (s\<lparr>frames := frames s @ [next_frame s, Suc (next_frame s)],
          next_frame := Suc (Suc (next_frame s))\<rparr>) = (Inr out, s2)"
    unfolding revolve_dataset_def two_frames_out
    by (auto split: prod.splits sum.splits)
  from revolve_body_Inr [OF this] show ?thesis .
qed

lemma keys_dict_update: "fst ` set (dict_update d e) = fst ` set d \<union> fst ` set e"
  unfolding dict_update_def
  by (induction e arbitrary: d) (auto simp: dom_update)

lemma dict_update_nonempty: "d \<noteq> [] \<or> e \<noteq> [] \<Longrightarrow> dict_update d e \<noteq> []"
proof -
  assume "d \<noteq> [] \<or> e \<noteq> []"
  then have "fst ` set d \<union> fst ` set e \<noteq> {}" by auto
  then have "fst ` set (dict_update d e) \<noteq> {}" using keys_dict_update [of d e] by simp
  then show ?thesis by auto
qed

lemma radial_dict_Inr:
  assumes "radial_dict vars_in radial_coord = Inr (rc, dz)"
  shows "rc \<noteq> []"
proof (cases "radial_false radial_coord")
  case True
  with assms show ?thesis by (auto simp: radial_dict_def split: if_splits)
next
  case False
  with assms show ?thesis
    by (cases radial_coord) (auto simp: radial_dict_def dict_of_def dict_update_nonempty)
qed

lemma revolve_variable_ok:
  assumes "\<forall>i. length (vals d i zo) = planes * npt"
    and "values_by_name data_in zi v = Inr vin" "length vin = npt"
    and "v \<in> set (variable_names d)"
    and "\<forall>vy vz. map_of vv v = Some (vy, vz) \<longrightarrow>
           vy \<in> set (variable_names d) \<and> vz \<in> set (variable_names d)"
  shows "\<exists>d'. revolve_variable data_in zi zo npt planes ct st vv v d = Inr d'
     \<and> variable_names d' = variable_names d \<and> zone_list d' = zone_list d
     \<and> (\<forall>i. length (vals d' i zo) = planes * npt)
     \<and> (\<forall>i z. z \<noteq> zo \<longrightarrow> vals d' i z = vals d i z)"
proof -
  from assms(4) obtain iv where iv: "name_index (variable_names d) v = Some iv"
    using name_index_mem by blast
  have lc: "length (concat (map (\<lambda>k. vin) [0..<planes])) = planes * npt"
    using assms(3) by (simp add: concat_blocks_length)
  have lcos: "length (concat (map (\<lambda>k. map (\<lambda>x. x * ct ! k) vin) [0..<planes])) = planes * npt"
    and lsin: "length (concat (map (\<lambda>k. map (\<lambda>x. x * st ! k) vin) [0..<planes])) = planes * npt"
    using assms(3) by (simp_all add: concat_blocks_length)
  show ?thesis
  proof (cases "map_of vv v")
    case None
    from revolve_variable_unmapped [OF assms(2,3) iv _ None, of zo planes ct st] assms(1)
    have "revolve_variable data_in zi zo npt planes ct st vv v d
      = Inr (set_values iv zo (concat (map (\<lambda>k. vin) [0..<planes])) d)" by simp
    moreover have "\<forall>i. length (vals (set_values iv zo (concat (map (\<lambda>k. vin) [0..<planes])) d) i zo)
        = planes * npt"
      using assms(1) lc by (auto simp: set_values_def)
    ultimately show ?thesis by (auto simp: set_values_def)
  next
    case (Some p)
    obtain vy vz where p: "p = (vy, vz)" by (cases p)
    from assms(5) Some p obtain iy iz where
      iy: "name_index (variable_names d) vy = Some iy" and iz: "name_index (variable_names d) vz = Some iz"
      using name_index_mem by blast
    from revolve_variable_mapped [OF assms(2,3) iv _ Some [unfolded p] iy iz, of zo planes ct st] assms(1)
    have "revolve_variable data_in zi zo npt planes ct st vv v d
     = Inr (set_values iz zo (concat (map (\<lambda>k. map (\<lambda>x. x * st ! k) vin) [0..<planes]))
             (set_values iy zo (concat (map (\<lambda>k. map (\<lambda>x. x * ct ! k) vin) [0..<planes]))
               (set_values iv zo (concat (map (\<lambda>k. vin) [0..<planes])) d)))" by simp
    moreover have "\<forall>i. length (vals (set_values iz zo (concat (map (\<lambda>k. map (\<lambda>x. x * st ! k) vin) [0..<planes]))
             (set_values iy zo (concat (map (\<lambda>k. map (\<lambda>x. x * ct ! k) vin) [0..<planes]))
               (set_values iv zo (concat (map (\<lambda>k. vin) [0..<planes])) d))) i zo)
        = planes * npt"
      using assms(1) lc lcos lsin by (auto simp: set_values_def)
    ultimately show ?thesis by (auto simp: set_values_def)
  qed
qed

lemma variable_loop_ok:
  assumes "\<forall>i. length (vals d i zo) = planes * npt"
    and "\<forall>v \<in> set vs. \<exists>vin. values_by_name data_in zi v = Inr vin \<and> length vin = npt"
    and "set vs \<subseteq> set (variable_names d)"
    and "\<forall>v \<in> set vs. \<forall>vy vz. map_of vv v = Some (vy, vz) \<longrightarrow>
           vy \<in> set (variable_names d) \<and> vz \<in> set (variable_names d)"
  shows "\<exists>d'. efold (revolve_variable data_in zi zo npt planes ct st vv) vs d = Inr d'
     \<and> variable_names d' = variable_names d \<and> zone_list d' = zone_list d
     \<and> (\<forall>i. length (vals d' i zo) = planes * npt)
     \<and> (\<forall>i z. z \<noteq> zo \<longrightarrow> vals d' i z = vals d i z)"
proof -
  let ?I = "\<lambda>t :: real dataset. variable_names t = variable_names d \<and> zone_list t = zone_list d
     \<and> (\<forall>i. length (vals t i zo) = planes * npt)
     \<and> (\<forall>i z. z \<noteq> zo \<longrightarrow> vals t i z = vals d i z)"
  have "\<exists>s'. efold (revolve_variable data_in zi zo npt planes ct st vv) vs d = Inr s' \<and> ?I s'"
  proof (rule efold_invariant [where I = ?I])
    show "?I d" using assms(1) by simp
  next
    fix x t assume x: "x \<in> set vs" and t: "?I t"
    from assms(2) x obtain vin where vin: "values_by_name data_in zi x = Inr vin" "length vin = npt"
      by blast
    have a: "\<forall>i. length (vals t i zo) = planes * npt" using t by blast
    have b: "x \<in> set (variable_names t)" using t x assms(3) by auto
    have c: "\<forall>vy vz. map_of vv x = Some (vy, vz) \<longrightarrow>
           vy \<in> set (variable_names t) \<and> vz \<in> set (variable_names t)"
      using t x assms(4) by auto
    note ok = revolve_variable_ok [where d = t and v = x and vin = vin and vv = vv and zo = zo
        and planes = planes and npt = npt and data_in = data_in and zi = zi and ct = ct and st = st]
    from ok [OF a vin b c] t
    show "\<exists>t'. revolve_variable data_in zi zo npt planes ct st vv x t = Inr t' \<and> ?I t'"
      by auto
  qed
  then show ?thesis by blast
qed

lemma add_ordered_zone_simps:
  "variable_names (add_ordered_zone n dims d) = variable_names d"
  "length (zone_list (add_ordered_zone n dims d)) = Suc (length (zone_list d))"
  "vals (add_ordered_zone n dims d) i (length (zone_list d)) = replicate (prod_list dims) 0"
  "z \<noteq> length (zone_list d) \<Longrightarrow> vals (add_ordered_zone n dims d) i z = vals d i z"
  by (simp_all add: add_ordered_zone_def)

lemma revolve_zone_ok:
  assumes "ordered zin" "rank zin < 3"
    and "prod_list (take (rank zin) (dimensions zin)) = prod_list (dimensions zin)"
    and "\<forall>v \<in> set (variable_names data_in).
           \<exists>vin. values_by_name data_in zi v = Inr vin \<and> length vin = prod_list (dimensions zin)"
    and "set (variable_names data_in) \<subseteq> set (variable_names d)"
    and "\<forall>v \<in> set (variable_names data_in). \<forall>vy vz. map_of vv v = Some (vy, vz) \<longrightarrow>
           vy \<in> set (variable_names d) \<and> vz \<in> set (variable_names d)"
  shows "\<exists>d'. revolve_zone data_in planes ct st vv (zi, zin) d = Inr d'
     \<and> variable_names d' = variable_names d
     \<and> length (zone_list d') = Suc (length (zone_list d))
     \<and> (\<forall>i z. z \<noteq> length (zone_list d) \<longrightarrow> vals d' i z = vals d i z)"
proof -
  let ?zo = "length (zone_list d)"
  let ?npt = "prod_list (dimensions zin)"
  let ?d0 = "add_ordered_zone (zone_name zin) (take (rank zin) (dimensions zin) @ [planes]) d"
  have l: "\<forall>i. length (vals ?d0 i ?zo) = planes * ?npt"
    using assms(3) by (simp add: add_ordered_zone_simps mult.commute)
  have n: "variable_names ?d0 = variable_names d" by (simp add: add_ordered_zone_simps)
  from variable_loop_ok [where d = ?d0 and zo = ?zo and planes = planes and npt = ?npt
      and vs = "variable_names data_in" and data_in = data_in and zi = zi and vv = vv
      and ct = ct and st = st, OF l assms(4)] assms(5,6) n
  obtain d' where
    r: "efold (revolve_variable data_in zi ?zo ?npt planes ct st vv) (variable_names data_in) ?d0 = Inr d'"
    and p: "variable_names d' = variable_names ?d0" "zone_list d' = zone_list ?d0"
      "\<forall>i z. z \<noteq> ?zo \<longrightarrow> vals d' i z = vals ?d0 i z"
    by auto
  have "revolve_zone data_in planes ct st vv (zi, zin) d = Inr d'"
    using assms(1,2) r by (simp add: revolve_zone_def)
  moreover have "length (zone_list d') = Suc ?zo" using p(2) by (simp add: add_ordered_zone_simps)
  moreover have "\<forall>i z. z \<noteq> ?zo \<longrightarrow> vals d' i z = vals d i z"
    using p(3) by (simp add: add_ordered_zone_simps)
  ultimately show ?thesis using p(1) n by simp
qed

lemma input_values:
  assumes "well_formed data_in" "zi < length (zone_list data_in)" "v \<in> set (variable_names data_in)"
  shows "\<exists>vin. values_by_name data_in zi v = Inr vin
           \<and> length vin = prod_list (dimensions (zone_list data_in ! zi))"
proof -
  from assms(3) obtain i where i: "name_index (variable_names data_in) v = Some i"
    using name_index_mem by blast
  then have "i < num_variables data_in" using name_index_Some by (fastforce simp: num_variables_def)
  with assms(1,2) have "length (vals data_in i zi) = num_points (zone_list data_in ! zi)"
    by (simp add: well_formed_def)
  then show ?thesis using i by (simp add: values_by_name_def num_points_def)
qed

lemma built_names:
  assumes "v \<in> set V"
  shows "v \<in> set (variable_names (build_variables V vv create_dataset))"
    and "map_of vv v = Some (vy, vz) \<Longrightarrow>
           vy \<in> set (variable_names (build_variables V vv create_dataset))
           \<and> vz \<in> set (variable_names (build_variables V vv create_dataset))"
proof -
  let ?f = "\<lambda>v. v # (case map_of vv v of None \<Rightarrow> []
                     | Some (vy, vz) \<Rightarrow> filter (\<lambda>c. c \<notin> set V) [vy, vz])"
  have N: "set (variable_names (build_variables V vv create_dataset)) = (\<Union>u \<in> set V. set (?f u))"
    by (simp add: build_variables_names)
  have heads: "u \<in> set V \<Longrightarrow> u \<in> (\<Union>u \<in> set V. set (?f u))" for u by force
  show "v \<in> set (variable_names (build_variables V vv create_dataset))"
    unfolding N using heads [OF assms] .
  assume m: "map_of vv v = Some (vy, vz)"
  have "c \<in> (\<Union>u \<in> set V. set (?f u))" if "c = vy \<or> c = vz" for c
  proof (cases "c \<in> set V")
    case True
    then show ?thesis by (rule heads)
  next
    case False
    then have "c \<in> set (?f v)" using that m by auto
    then show ?thesis using assms by blast
  qed
  then show "vy \<in> set (variable_names (build_variables V vv create_dataset))
           \<and> vz \<in> set (variable_names (build_variables V vv create_dataset))"
    unfolding N by blast
qed

lemma zone_loop_ok:
  assumes "well_formed data_in"
    and "\<forall>z \<in> set (zone_list data_in). ordered z \<and> rank z < 3
           \<and> prod_list (take (rank z) (dimensions z)) = num_points z"
  shows "\<exists>d'. efold (revolve_zone data_in planes ct st vv) (enumerate 0 (zone_list data_in))
                 (build_variables (variable_names data_in) vv create_dataset) = Inr d'"
proof -
  let ?N = "variable_names (build_variables (variable_names data_in) vv create_dataset)"
  let ?I = "\<lambda>t :: real dataset. variable_names t = ?N"
  have "\<exists>s'. efold (revolve_zone data_in planes ct st vv) (enumerate 0 (zone_list data_in))
                 (build_variables (variable_names data_in) vv create_dataset) = Inr s' \<and> ?I s'"
  proof (rule efold_invariant [where I = ?I])
    show "?I (build_variables (variable_names data_in) vv create_dataset)" by simp
  next
    fix x t assume x: "x \<in> set (enumerate 0 (zone_list data_in))" and t: "?I t"
    obtain zi zin where xz: "x = (zi, zin)" by (cases x)
    from x have zi: "zi < length (zone_list data_in)" and zin: "zin = zone_list data_in ! zi"
      by (auto simp: xz in_set_enumerate_eq)
    then have mem: "zin \<in> set (zone_list data_in)" by simp
    with assms(2) have z: "ordered zin" "rank zin < 3"
      "prod_list (take (rank zin) (dimensions zin)) = prod_list (dimensions zin)"
      by (auto simp: num_points_def)
    have a: "\<forall>v \<in> set (variable_names data_in).
           \<exists>vin. values_by_name data_in zi v = Inr vin \<and> length vin = prod_list (dimensions zin)"
      using input_values [OF assms(1) zi] zin by blast
    have b: "set (variable_names data_in) \<subseteq> set (variable_names t)"
      using t built_names(1) by auto
    have c: "\<forall>v \<in> set (variable_names data_in). \<forall>vy vz. map_of vv v = Some (vy, vz) \<longrightarrow>
           vy \<in> set (variable_names t) \<and> vz \<in> set (variable_names t)"
      using t built_names(2) by auto
    from revolve_zone_ok [where data_in = data_in and d = t and vv = vv and zi = zi and zin = zin
        and planes = planes and ct = ct and st = st, OF z a b c] t
    show "\<exists>t'. revolve_zone data_in planes ct st vv x t = Inr t' \<and> ?I t'"
      by (auto simp: xz)
  qed
  then show ?thesis by blast
qed

lemma revolve_body_ok:
  assumes "distinct (variable_names data_in)"
    and "radial_dict (variable_names data_in) radial_coord = Inr (rc, dz)"
    and "\<forall>k \<in> set (map fst (dict_update rc (vector_dict vector_vars))).
           k \<in> set (variable_names data_in)"
    and "dz \<longrightarrow> ''z'' \<notin> set (variable_names data_in)"
    and "efold (revolve_zone data_in planes (map cos (linspace 0 (radians angle) planes))
                 (map sin (linspace 0 (radians angle) planes))
                 (dict_update rc (vector_dict vector_vars)))
          (enumerate 0 (zone_list data_in))
          (build_variables (variable_names data_in) (dict_update rc (vector_dict vector_vars))
             create_dataset) = Inr d"
  shows "revolve_body datafile_in data_in datafile_out radial_coord planes angle vector_vars frame_out s
     = (Inr (write_dataset datafile_out d None None), s\<lparr>created := created s @ [frame_out]\<rparr>)"
proof -
  let ?vv = "dict_update rc (vector_dict vector_vars)"
  from radial_dict_Inr [OF assms(2)] obtain rname comps rest where rc: "rc = (rname, comps) # rest"
    by (cases rc) auto
  have "rname \<in> fst ` set ?vv" unfolding keys_dict_update by (simp add: rc)
  then have rn: "rname \<in> set (variable_names data_in)" using assms(3) by auto
  have f: "find (\<lambda>v. v \<notin> set (variable_names data_in)) (map fst ?vv) = None"
    using assms(3) by (simp add: find_None_iff)
  show ?thesis
    using assms(1,2,4,5) rn f by (simp add: revolve_body_def Let_def rc)
qed

lemma name_index_eq_iff:
  assumes "name_index ns a = Some i" "name_index ns b = Some j"
  shows "i = j \<longleftrightarrow> a = b"
  using assms name_index_inj by fastforce

lemma revolve_variable_target:
  assumes "\<forall>i. length (vals d i zo) = planes * npt"
    and "values_by_name data_in zi v = Inr vin" "length vin = npt"
    and "v \<in> set (variable_names d)"
    and "\<forall>vy vz. map_of vv v = Some (vy, vz) \<longrightarrow>
           vy \<in> set (variable_names d) \<and> vz \<in> set (variable_names d)"
    and "name_index (variable_names d) t = Some j"
  shows "\<exists>d'. revolve_variable data_in zi zo npt planes ct st vv v d = Inr d'
     \<and> variable_names d' = variable_names d \<and> zone_list d' = zone_list d
     \<and> (\<forall>i. length (vals d' i zo) = planes * npt)
     \<and> (\<forall>i z. z \<noteq> zo \<longrightarrow> vals d' i z = vals d i z)
     \<and> (t \<noteq> v \<and> (\<forall>a b. map_of vv v = Some (a, b) \<longrightarrow> a \<noteq> t \<and> b \<noteq> t)
          \<longrightarrow> vals d' j zo = vals d j zo)
     \<and> (t = v \<and> (\<forall>a b. map_of vv v = Some (a, b) \<longrightarrow> a \<noteq> t \<and> b \<noteq> t)
          \<longrightarrow> vals d' j zo = concat (map (\<lambda>k. vin) [0..<planes]))
     \<and> (\<forall>a b. map_of vv v = Some (a, b) \<and> t = b
          \<longrightarrow> vals d' j zo = concat (map (\<lambda>k. map (\<lambda>x. x * st ! k) vin) [0..<planes]))
     \<and> (\<forall>a b. map_of vv v = Some (a, b) \<and> t = a \<and> a \<noteq> b
          \<longrightarrow> vals d' j zo = concat (map (\<lambda>k. map (\<lambda>x. x * ct ! k) vin) [0..<planes]))"
proof -
  from assms(4) obtain iv where iv: "name_index (variable_names d) v = Some iv"
    using name_index_mem by blast
  have lc: "length (concat (map (\<lambda>k. vin) [0..<planes])) = planes * npt"
    using assms(3) by (simp add: concat_blocks_length)
  have lcos: "length (concat (map (\<lambda>k. map (\<lambda>x. x * ct ! k) vin) [0..<planes])) = planes * npt"
    and lsin: "length (concat (map (\<lambda>k. map (\<lambda>x. x * st ! k) vin) [0..<planes])) = planes * npt"
    using assms(3) by (simp_all add: concat_blocks_length)
  have jv: "j = iv \<longleftrightarrow> t = v" using name_index_eq_iff [OF assms(6) iv] .
  show ?thesis
  proof (cases "map_of vv v")
    case None
    let ?d' = "set_values iv zo (concat (map (\<lambda>k. vin) [0..<planes])) d"
    from revolve_variable_unmapped [OF assms(2,3) iv _ None, of zo planes ct st] assms(1)
    have r: "revolve_variable data_in zi zo npt planes ct st vv v d = Inr ?d'" by simp
    have l: "\<forall>i. length (vals ?d' i zo) = planes * npt"
      using assms(1) lc by (auto simp: set_values_def)
    have a: "t \<noteq> v \<longrightarrow> vals ?d' j zo = vals d j zo" using jv by (auto simp: set_values_def)
    have b: "t = v \<longrightarrow> vals ?d' j zo = concat (map (\<lambda>k. vin) [0..<planes])"
      using jv by (auto simp: set_values_def)
    have c: "variable_names ?d' = variable_names d" "zone_list ?d' = zone_list d"
      "\<forall>i z. z \<noteq> zo \<longrightarrow> vals ?d' i z = vals d i z"
      by (auto simp: set_values_def)
    show ?thesis using r l a b c None by auto
  next
    case (Some p)
    obtain vy vz where p: "p = (vy, vz)" by (cases p)
    from assms(5) Some p obtain iy iz where
      iy: "name_index (variable_names d) vy = Some iy" and iz: "name_index (variable_names d) vz = Some iz"
      using name_index_mem by blast
    let ?COPY = "concat (map (\<lambda>k. vin) [0..<planes])"
    let ?COS = "concat (map (\<lambda>k. map (\<lambda>x. x * ct ! k) vin) [0..<planes])"
    let ?SIN = "concat (map (\<lambda>k. map (\<lambda>x. x * st ! k) vin) [0..<planes])"
    let ?d' = "set_values iz zo ?SIN (set_values iy zo ?COS (set_values iv zo ?COPY d))"
    from revolve_variable_mapped [OF assms(2,3) iv _ Some [unfolded p] iy iz, of zo planes ct st] assms(1)
    have r: "revolve_variable data_in zi zo npt planes ct st vv v d = Inr ?d'" by simp
    have l: "\<forall>i. length (vals ?d' i zo) = planes * npt"
      using assms(1) lc lcos lsin by (auto simp: set_values_def)
    have jy: "j = iy \<longleftrightarrow> t = vy" using name_index_eq_iff [OF assms(6) iy] .
    have jz: "j = iz \<longleftrightarrow> t = vz" using name_index_eq_iff [OF assms(6) iz] .
    have a: "t \<noteq> v \<and> vy \<noteq> t \<and> vz \<noteq> t \<longrightarrow> vals ?d' j zo = vals d j zo"
      using jv jy jz by (auto simp: set_values_def)
    have b: "t = v \<and> vy \<noteq> t \<and> vz \<noteq> t \<longrightarrow> vals ?d' j zo = ?COPY"
      using jv jy jz by (auto simp: set_values_def)
    have s: "t = vz \<longrightarrow> vals ?d' j zo = ?SIN"
      using jz by (auto simp: set_values_def)
    have co: "t = vy \<and> vy \<noteq> vz \<longrightarrow> vals ?d' j zo = ?COS"
      using jy jz by (auto simp: set_values_def)
    have c: "variable_names ?d' = variable_names d" "zone_list ?d' = zone_list d"
      "\<forall>i z. z \<noteq> zo \<longrightarrow> vals ?d' i z = vals d i z"
      by (auto simp: set_values_def)
    show ?thesis using r l a b s co c Some p by auto
  qed
qed

lemma revolve_succeeds:
  assumes "well_formed data_in"
    and "\<forall>z \<in> set (zone_list data_in). ordered z \<and> rank z < 3
           \<and> prod_list (take (rank z) (dimensions z)) = num_points z"
    and "distinct (variable_names data_in)"
    and "radial_dict (variable_names data_in) radial_coord = Inr (rc, dz)"
    and "\<forall>k \<in> set (map fst (dict_update rc (vector_dict vector_vars))).
           k \<in> set (variable_names data_in)"
    and "dz \<longrightarrow> ''z'' \<notin> set (variable_names data_in)"
  shows "\<exists>d. efold (revolve_zone data_in planes (map cos (linspace 0 (radians angle) planes))
                 (map sin (linspace 0 (radians angle) planes))
                 (dict_update rc (vector_dict vector_vars)))
          (enumerate 0 (zone_list data_in))
          (build_variables (variable_names data_in) (dict_update rc (vector_dict vector_vars))
             create_dataset) = Inr d
     \<and> revolve_dataset datafile_in data_in datafile_out radial_coord planes angle vector_vars s
       = (Inr (write_dataset datafile_out d None None),
          delete_frame (next_frame s) (delete_frame (Suc (next_frame s))
            (s\<lparr>frames := frames s @ [next_frame s, Suc (next_frame s)],
               next_frame := Suc (Suc (next_frame s)),
               created := created s @ [Suc (next_frame s)]\<rparr>)))"
proof -
  from zone_loop_ok [OF assms(1,2), where planes = planes
      and ct = "map cos (linspace 0 (radians angle) planes)"
      and st = "map sin (linspace 0 (radians angle) planes)"
      and vv = "dict_update rc (vector_dict vector_vars)"]
  obtain d where d: "efold (revolve_zone data_in planes (map cos (linspace 0 (radians angle) planes))
                 (map sin (linspace 0 (radians angle) planes))
                 (dict_update rc (vector_dict vector_vars)))
          (enumerate 0 (zone_list data_in))
          (build_variables (variable_names data_in) (dict_update rc (vector_dict vector_vars))
             create_dataset) = Inr d"
    by blast
  note b = revolve_body_ok [OF assms(3,4,5,6) d]
  have "revolve_dataset datafile_in data_in datafile_out radial_coord planes angle vector_vars s
       = (Inr (write_dataset datafile_out d None None),
          delete_frame (next_frame s) (delete_frame (Suc (next_frame s))
            (s\<lparr>frames := frames s @ [next_frame s, Suc (next_frame s)],
               next_frame := Suc (Suc (next_frame s)),
               created := created s @ [Suc (next_frame s)]\<rparr>)))"
    unfolding revolve_dataset_def two_frames_out b by simp
  with d show ?thesis by blast
qed

lemma map_snd_enumerate_f: "map (\<lambda>iz. f (snd iz)) (enumerate n xs) = map f xs"
  by (induction xs arbitrary: n) auto

lemma tiny_surf_ok:
  "well_formed tiny_surf"
  "\<forall>z \<in> set (zone_list tiny_surf). ordered z \<and> rank z < 3
           \<and> prod_list (take (rank z) (dimensions z)) = num_points z"
  "distinct (variable_names tiny_surf)"
  by (auto simp: well_formed_def tiny_surf_def num_variables_def num_points_def less_Suc_eq
      numeral_2_eq_2)

lemma axi_sphere_surf_ok:
  "well_formed axi_sphere_surf"
  "\<forall>z \<in> set (zone_list axi_sphere_surf). ordered z \<and> rank z < 3
           \<and> prod_list (take (rank z) (dimensions z)) = num_points z"
  "distinct (variable_names axi_sphere_surf)"
  by (auto simp: well_formed_def axi_sphere_surf_def num_variables_def num_points_def)



text \<open>
  C2. The dimension list of every output zone is made of the first \<open>rank\<close> entries of
  the input zone's dimension list followed by the number of planes, and the zones keep
  their names and order; for a rank-1 zone of dimensions \<open>(M, 1)\<close> that is \<open>(M, N)\<close>.
\<close>

theorem revolve_zone_dimensions:
  assumes "revolve_dataset datafile_in data_in datafile_out radial_coord planes angle vector_vars s
             = (Inr out, s')"
  shows "map dimensions (zone_list (data out))
           = map (\<lambda>z. take (rank z) (dimensions z) @ [planes]) (zone_list data_in)
       \<and> map zone_name (zone_list (data out)) = map zone_name (zone_list data_in)"
proof -
  from revolve_dataset_Inr [OF assms] obtain rc dz d where
    loop: "efold (revolve_zone data_in planes (map cos (linspace 0 (radians angle) planes))
                 (map sin (linspace 0 (radians angle) planes))
                 (dict_update rc (vector_dict vector_vars)))
          (enumerate 0 (zone_list data_in))
          (build_variables (variable_names data_in) (dict_update rc (vector_dict vector_vars))
             create_dataset) = Inr d"
    and out: "out = write_dataset datafile_out d None None"
    by blast
  from zone_loop_struct [OF loop] show ?thesis
    by (simp add: out write_dataset_def build_variables_names
        map_snd_enumerate_f [where f = "\<lambda>z. take (rank z) (dimensions z) @ [planes]"]
        map_snd_enumerate_f [where f = zone_name])
qed

theorem revolve_zone_dimensions_witness:
  "\<exists>out s'. revolve_dataset ''in.plt'' tiny_surf ''out.dat'' RNone 25 180 VNone fresh_session
               = (Inr out, s')
     \<and> map dimensions (zone_list (data out)) = [[2, 25]]"
proof -
  have rd: "radial_dict (variable_names tiny_surf) RNone = Inr ([(''r'', ''r'', ''z'')], True)"
    by (simp add: radial_dict_def tiny_surf_def)
  have k: "\<forall>k \<in> set (map fst (dict_update [(''r'', ''r'', ''z'')] (vector_dict VNone))).
           k \<in> set (variable_names tiny_surf)"
    by (simp add: dict_update_def tiny_surf_def)
  have z: "True \<longrightarrow> ''z'' \<notin> set (variable_names tiny_surf)" by (simp add: tiny_surf_def)
  from revolve_succeeds [OF tiny_surf_ok rd k z, where planes = 25 and angle = 180
      and datafile_in = "''in.plt''" and datafile_out = "''out.dat''" and s = fresh_session]
  obtain out s' where r: "revolve_dataset ''in.plt'' tiny_surf ''out.dat'' RNone 25 180 VNone
      fresh_session = (Inr out, s')"
    by blast
  from revolve_zone_dimensions [OF r] have "map dimensions (zone_list (data out)) = [[2, 25]]"
    by (simp add: tiny_surf_def)
  with r show ?thesis by auto
qed

text \<open>
  The claim fails for the rank-1 zone of dimensions \<open>(2, 1)\<close> revolved into 25 planes over
  180 degrees: the output zone has the dimensions \<open>(2, 25)\<close>, not \<open>(2, 1, 25)\<close>.
\<close>

theorem revolve_zone_dimensions_counterexample:
  "\<exists>out s'. revolve_dataset ''in.plt'' tiny_surf ''out.dat'' RNone 25 180 VNone fresh_session
               = (Inr out, s')
     \<and> map dimensions (zone_list (data out)) = [[2, 25]]
     \<and> map dimensions (zone_list (data out)) \<noteq> [[2, 1, 25]]"
proof -
  have rd: "radial_dict (variable_names tiny_surf) RNone = Inr ([(''r'', ''r'', ''z'')], True)"
    by (simp add: radial_dict_def tiny_surf_def)
  have k: "\<forall>k \<in> set (map fst (dict_update [(''r'', ''r'', ''z'')] (vector_dict VNone))).
           k \<in> set (variable_names tiny_surf)"
    by (simp add: dict_update_def tiny_surf_def)
  have z: "True \<longrightarrow> ''z'' \<notin> set (variable_names tiny_surf)" by (simp add: tiny_surf_def)
  from revolve_succeeds [OF tiny_surf_ok rd k z, where planes = 25 and angle = 180
      and datafile_in = "''in.plt''" and datafile_out = "''out.dat''" and s = fresh_session]
  obtain d s' where
    loop: "efold (revolve_zone tiny_surf 25 (map cos (linspace 0 (radians 180) 25))
                 (map sin (linspace 0 (radians 180) 25))
                 (dict_update [(''r'', ''r'', ''z'')] (vector_dict VNone)))
          (enumerate 0 (zone_list tiny_surf))
          (build_variables (variable_names tiny_surf)
             (dict_update [(''r'', ''r'', ''z'')] (vector_dict VNone)) create_dataset) = Inr d"
    and r: "revolve_dataset ''in.plt'' tiny_surf ''out.dat'' RNone 25 180 VNone fresh_session
              = (Inr (write_dataset ''out.dat'' d None None), s')"
    by blast
  from zone_loop_struct [OF loop]
  have "map dimensions (zone_list (data (write_dataset ''out.dat'' d None None))) = [[2, 25]]"
    by (simp add: write_dataset_def build_variables_names tiny_surf_def)
  with r show ?thesis by auto
qed

text \<open>
  C7. The variable list of the output dataset is the input's variable list in its order,
  each variable that is a key of the vector mapping (the radial coordinate's entry
  followed by the entries of \<^verbatim>\<open>vector_vars\<close>) being followed at once by those of its
  two components that are no input variables.
\<close>

theorem revolve_output_variables:
  assumes "revolve_dataset datafile_in data_in datafile_out radial_coord planes angle vector_vars s
             = (Inr out, s')"
  shows "\<exists>rc dz.
     radial_dict (variable_names data_in) radial_coord = Inr (rc, dz)
     \<and> variable_names (data out)
        = concat (map (\<lambda>v. v # (case map_of (dict_update rc (vector_dict vector_vars)) v of
                                  None \<Rightarrow> []
                                | Some (vy, vz) \<Rightarrow>
                                    filter (\<lambda>c. c \<notin> set (variable_names data_in)) [vy, vz]))
                   (variable_names data_in))"
proof -
  from revolve_dataset_Inr [OF assms] obtain rc dz d where
    rd: "radial_dict (variable_names data_in) radial_coord = Inr (rc, dz)"
    and loop: "efold (revolve_zone data_in planes (map cos (linspace 0 (radians angle) planes))
                 (map sin (linspace 0 (radians angle) planes))
                 (dict_update rc (vector_dict vector_vars)))
          (enumerate 0 (zone_list data_in))
          (build_variables (variable_names data_in) (dict_update rc (vector_dict vector_vars))
             create_dataset) = Inr d"
    and out: "out = write_dataset datafile_out d None None"
    by blast
  from zone_loop_struct [OF loop] have "variable_names (data out)
        = concat (map (\<lambda>v. v # (case map_of (dict_update rc (vector_dict vector_vars)) v of
                                  None \<Rightarrow> []
                                | Some (vy, vz) \<Rightarrow>
                                    filter (\<lambda>c. c \<notin> set (variable_names data_in)) [vy, vz]))
                   (variable_names data_in))"
    by (simp add: out write_dataset_def build_variables_names)
  with rd show ?thesis by blast
qed

theorem revolve_output_variables_witness:
  "vector_dict (VList [''q2'']) = [(''q2'', ''q2_cos'', ''q2_sin'')]
   \<and> (\<exists>out s'. revolve_dataset ''axi_sphere_surf.plt'' axi_sphere_surf ''axi_sphere_rev.dat''
                  (RStr ''v1'') 25 90
                  (VDict [(''v2'', ''v2y'', ''v2z''), (''q2'', ''q2_cos'', ''q2_sin'')])
                  fresh_session = (Inr out, s')
        \<and> variable_names (data out)
           = [''x'', ''y'', ''q1'', ''q2'', ''q2_cos'', ''q2_sin'', ''v1'', ''z'', ''v2'',
              ''v2y'', ''v2z''])"
proof -
  let ?vv = "VDict [(''v2'', ''v2y'', ''v2z''), (''q2'', ''q2_cos'', ''q2_sin'')]"
  have rd: "radial_dict (variable_names axi_sphere_surf) (RStr ''v1'')
              = Inr ([(''v1'', ''v1'', ''z'')], True)"
    by (simp add: radial_dict_def)
  have du: "dict_update [(''v1'', ''v1'', ''z'')] (vector_dict ?vv)
              = [(''v1'', ''v1'', ''z''), (''v2'', ''v2y'', ''v2z''), (''q2'', ''q2_cos'', ''q2_sin'')]"
    by (simp add: dict_update_def dict_of_def)
  have k: "\<forall>k \<in> set (map fst (dict_update [(''v1'', ''v1'', ''z'')] (vector_dict ?vv))).
           k \<in> set (variable_names axi_sphere_surf)"
    unfolding du by (simp add: axi_sphere_surf_def)
  have z: "True \<longrightarrow> ''z'' \<notin> set (variable_names axi_sphere_surf)"
    by (simp add: axi_sphere_surf_def)
  from revolve_succeeds [OF axi_sphere_surf_ok rd k z, where planes = 25 and angle = 90
      and datafile_in = "''axi_sphere_surf.plt''" and datafile_out = "''axi_sphere_rev.dat''"
      and s = fresh_session]
  obtain out s' where r: "revolve_dataset ''axi_sphere_surf.plt'' axi_sphere_surf
      ''axi_sphere_rev.dat'' (RStr ''v1'') 25 90 ?vv fresh_session = (Inr out, s')"
    by blast
  from revolve_output_variables [OF r] obtain rc dz where
    rc: "radial_dict (variable_names axi_sphere_surf) (RStr ''v1'') = Inr (rc, dz)"
    and n: "variable_names (data out)
        = concat (map (\<lambda>v. v # (case map_of (dict_update rc (vector_dict ?vv)) v of
                                  None \<Rightarrow> []
                                | Some (vy, vz) \<Rightarrow>
                                    filter (\<lambda>c. c \<notin> set (variable_names axi_sphere_surf)) [vy, vz]))
                   (variable_names axi_sphere_surf))"
    by blast
  from rc rd have rceq: "rc = [(''v1'', ''v1'', ''z'')]" by simp
  note n1 = n [unfolded rceq]
  note n2 = n1 [unfolded du]
  from n2 have "variable_names (data out)
           = [''x'', ''y'', ''q1'', ''q2'', ''q2_cos'', ''q2_sin'', ''v1'', ''z'', ''v2'',
              ''v2y'', ''v2z'']"
    by (simp add: axi_sphere_surf_def)
  moreover have "vector_dict (VList [''q2'']) = [(''q2'', ''q2_cos'', ''q2_sin'')]"
    by (simp add: dict_of_def dict_update_def)
  ultimately show ?thesis using r by auto
qed

lemma variable_loop_values:
  assumes "\<forall>i. length (vals d i zo) = planes * npt"
    and "\<forall>u \<in> set (pre @ v # post). \<exists>vin. values_by_name data_in zi u = Inr vin \<and> length vin = npt"
    and "set (pre @ v # post) \<subseteq> set (variable_names d)"
    and "\<forall>u \<in> set (pre @ v # post). \<forall>vy vz. map_of vv u = Some (vy, vz) \<longrightarrow>
           vy \<in> set (variable_names d) \<and> vz \<in> set (variable_names d)"
    and "values_by_name data_in zi v = Inr vin"
    and "name_index (variable_names d) t = Some j"
    and "t = v \<or> (\<exists>a b. map_of vv v = Some (a, b) \<and> (t = a \<or> t = b))"
    and "\<forall>u \<in> set post. u \<noteq> t \<and> (\<forall>a b. map_of vv u = Some (a, b) \<longrightarrow> a \<noteq> t \<and> b \<noteq> t)"
  shows "\<exists>d'. efold (revolve_variable data_in zi zo npt planes ct st vv) (pre @ v # post) d = Inr d'
     \<and> variable_names d' = variable_names d \<and> zone_list d' = zone_list d
     \<and> (\<forall>i z. z \<noteq> zo \<longrightarrow> vals d' i z = vals d i z)
     \<and> vals d' j zo =
         (case map_of vv v of
            None \<Rightarrow> concat (map (\<lambda>k. vin) [0..<planes])
          | Some (a, b) \<Rightarrow>
              if t = b then concat (map (\<lambda>k. map (\<lambda>x. x * st ! k) vin) [0..<planes])
              else if t = a then concat (map (\<lambda>k. map (\<lambda>x. x * ct ! k) vin) [0..<planes])
              else concat (map (\<lambda>k. vin) [0..<planes]))"
proof -
  let ?f = "revolve_variable data_in zi zo npt planes ct st vv"
  let ?N = "variable_names d"
  let ?target = "case map_of vv v of
            None \<Rightarrow> concat (map (\<lambda>k. vin) [0..<planes])
          | Some (a, b) \<Rightarrow>
              if t = b then concat (map (\<lambda>k. map (\<lambda>x. x * st ! k) vin) [0..<planes])
              else if t = a then concat (map (\<lambda>k. map (\<lambda>x. x * ct ! k) vin) [0..<planes])
              else concat (map (\<lambda>k. vin) [0..<planes])"
  \<comment> \<open>the variables before \<open>v\<close>\<close>
  have "\<exists>d1. efold ?f pre d = Inr d1
     \<and> variable_names d1 = ?N \<and> zone_list d1 = zone_list d
     \<and> (\<forall>i. length (vals d1 i zo) = planes * npt)
     \<and> (\<forall>i z. z \<noteq> zo \<longrightarrow> vals d1 i z = vals d i z)"
  proof (rule variable_loop_ok [OF assms(1)])
    show "\<forall>u \<in> set pre. \<exists>vin. values_by_name data_in zi u = Inr vin \<and> length vin = npt"
      using assms(2) by simp
    show "set pre \<subseteq> set (variable_names d)" using assms(3) by simp
    show "\<forall>u \<in> set pre. \<forall>vy vz. map_of vv u = Some (vy, vz) \<longrightarrow>
           vy \<in> set (variable_names d) \<and> vz \<in> set (variable_names d)"
    proof (intro ballI allI impI)
      fix u vy vz assume "u \<in> set pre" and m: "map_of vv u = Some (vy, vz)"
      then have "u \<in> set (pre @ v # post)" by simp
      from bspec [OF assms(4) this] m
      show "vy \<in> set (variable_names d) \<and> vz \<in> set (variable_names d)" by blast
    qed
  qed
  then obtain d1 where p1: "efold ?f pre d = Inr d1"
    and n1: "variable_names d1 = ?N" and z1: "zone_list d1 = zone_list d"
    and l1: "\<forall>i. length (vals d1 i zo) = planes * npt"
    and o1: "\<forall>i z. z \<noteq> zo \<longrightarrow> vals d1 i z = vals d i z"
    by blast
  \<comment> \<open>the pass for \<open>v\<close>\<close>
  from assms(2,5) have lv: "length vin = npt" by auto
  have vN: "v \<in> set (variable_names d1)" using assms(3) n1 by simp
  have cN: "\<forall>vy vz. map_of vv v = Some (vy, vz) \<longrightarrow>
           vy \<in> set (variable_names d1) \<and> vz \<in> set (variable_names d1)"
    using assms(4) n1 by simp
  have tN: "name_index (variable_names d1) t = Some j" using assms(6) n1 by simp
  from revolve_variable_target [OF l1 assms(5) lv vN cN tN, of ct st]
  obtain d2 where p2: "?f v d1 = Inr d2"
    and n2: "variable_names d2 = ?N" and z2: "zone_list d2 = zone_list d"
    and l2: "\<forall>i. length (vals d2 i zo) = planes * npt"
    and o2: "\<forall>i z. z \<noteq> zo \<longrightarrow> vals d2 i z = vals d i z"
    and v2a: "t = v \<and> (\<forall>a b. map_of vv v = Some (a, b) \<longrightarrow> a \<noteq> t \<and> b \<noteq> t)
          \<longrightarrow> vals d2 j zo = concat (map (\<lambda>k. vin) [0..<planes])"
    and v2b: "\<forall>a b. map_of vv v = Some (a, b) \<and> t = b
          \<longrightarrow> vals d2 j zo = concat (map (\<lambda>k. map (\<lambda>x. x * st ! k) vin) [0..<planes])"
    and v2c: "\<forall>a b. map_of vv v = Some (a, b) \<and> t = a \<and> a \<noteq> b
          \<longrightarrow> vals d2 j zo = concat (map (\<lambda>k. map (\<lambda>x. x * ct ! k) vin) [0..<planes])"
    using n1 z1 o1 by auto
  have tv: "vals d2 j zo = ?target"
  proof (cases "map_of vv v")
    case None
    then show ?thesis using v2a assms(7) by simp
  next
    case (Some p)
    obtain a b where p: "p = (a, b)" by (cases p)
    show ?thesis
    proof (cases "t = b")
      case True
      then show ?thesis using v2b Some p by simp
    next
      case False
      note nb = this
      show ?thesis
      proof (cases "t = a")
        case True
        then show ?thesis using v2c Some p nb by auto
      next
        case False
        then have "t = v" using assms(7) Some p nb by auto
        then show ?thesis using v2a Some p nb False by auto
      qed
    qed
  qed
  \<comment> \<open>the variables after \<open>v\<close>\<close>
  let ?I = "\<lambda>x :: real dataset. variable_names x = ?N \<and> zone_list x = zone_list d
     \<and> (\<forall>i. length (vals x i zo) = planes * npt)
     \<and> (\<forall>i z. z \<noteq> zo \<longrightarrow> vals x i z = vals d i z)
     \<and> vals x j zo = vals d2 j zo"
  have "\<exists>d3. efold ?f post d2 = Inr d3 \<and> ?I d3"
  proof (rule efold_invariant [where I = ?I])
    show "?I d2" using n2 z2 l2 o2 by simp
  next
    fix u x assume u: "u \<in> set post" and x: "?I x"
    from assms(2) u obtain uin where uin: "values_by_name data_in zi u = Inr uin" "length uin = npt"
      by auto
    have a: "\<forall>i. length (vals x i zo) = planes * npt" using x by blast
    have b: "u \<in> set (variable_names x)" using x u assms(3) by auto
    have c: "\<forall>vy vz. map_of vv u = Some (vy, vz) \<longrightarrow>
           vy \<in> set (variable_names x) \<and> vz \<in> set (variable_names x)"
    proof (intro allI impI)
      fix vy vz assume m: "map_of vv u = Some (vy, vz)"
      have "u \<in> set (pre @ v # post)" using u by simp
      from bspec [OF assms(4) this] m
      have "vy \<in> set (variable_names d) \<and> vz \<in> set (variable_names d)" by blast
      then show "vy \<in> set (variable_names x) \<and> vz \<in> set (variable_names x)"
        using x by simp
    qed
    have e: "name_index (variable_names x) t = Some j" using x assms(6) by simp
    have un: "u \<noteq> t \<and> (\<forall>a b. map_of vv u = Some (a, b) \<longrightarrow> a \<noteq> t \<and> b \<noteq> t)"
      using assms(8) u by blast
    note tg = revolve_variable_target [where d = x and v = u and vin = uin and vv = vv and zo = zo
        and planes = planes and npt = npt and data_in = data_in and zi = zi and ct = ct and st = st
        and t = t and j = j]
    from tg [OF a uin b c e] obtain x' where
      r: "?f u x = Inr x'" and q: "variable_names x' = variable_names x" "zone_list x' = zone_list x"
        "\<forall>i. length (vals x' i zo) = planes * npt"
        "\<forall>i z. z \<noteq> zo \<longrightarrow> vals x' i z = vals x i z"
      and keep: "t \<noteq> u \<and> (\<forall>a b. map_of vv u = Some (a, b) \<longrightarrow> a \<noteq> t \<and> b \<noteq> t)
          \<longrightarrow> vals x' j zo = vals x j zo"
      by blast
    have "vals x' j zo = vals x j zo" using keep un by blast
    then have "?I x'" using q x by simp
    with r show "\<exists>x'. ?f u x = Inr x' \<and> ?I x'" by blast
  qed
  then obtain d3 where p3: "efold ?f post d2 = Inr d3" and i3: "?I d3" by blast
  have "efold ?f (pre @ v # post) d = Inr d3"
    by (simp add: efold_append p1 p2 p3)
  moreover have "vals d3 j zo = ?target" using i3 tv by simp
  ultimately show ?thesis using i3 by blast
qed

lemma revolve_zone_values:
  assumes "ordered zin" "rank zin < 3"
    and "prod_list (take (rank zin) (dimensions zin)) = prod_list (dimensions zin)"
    and "\<forall>u \<in> set (variable_names data_in).
           \<exists>vin. values_by_name data_in zi u = Inr vin \<and> length vin = prod_list (dimensions zin)"
    and "set (variable_names data_in) \<subseteq> set (variable_names d)"
    and "\<forall>u \<in> set (variable_names data_in). \<forall>vy vz. map_of vv u = Some (vy, vz) \<longrightarrow>
           vy \<in> set (variable_names d) \<and> vz \<in> set (variable_names d)"
    and "variable_names data_in = pre @ v # post"
    and "values_by_name data_in zi v = Inr vin"
    and "name_index (variable_names d) t = Some j"
    and "t = v \<or> (\<exists>a b. map_of vv v = Some (a, b) \<and> (t = a \<or> t = b))"
    and "\<forall>u \<in> set post. u \<noteq> t \<and> (\<forall>a b. map_of vv u = Some (a, b) \<longrightarrow> a \<noteq> t \<and> b \<noteq> t)"
  shows "\<exists>d'. revolve_zone data_in planes ct st vv (zi, zin) d = Inr d'
     \<and> variable_names d' = variable_names d
     \<and> length (zone_list d') = Suc (length (zone_list d))
     \<and> (\<forall>i z. z \<noteq> length (zone_list d) \<longrightarrow> vals d' i z = vals d i z)
     \<and> vals d' j (length (zone_list d)) =
         (case map_of vv v of
            None \<Rightarrow> concat (map (\<lambda>k. vin) [0..<planes])
          | Some (a, b) \<Rightarrow>
              if t = b then concat (map (\<lambda>k. map (\<lambda>x. x * st ! k) vin) [0..<planes])
              else if t = a then concat (map (\<lambda>k. map (\<lambda>x. x * ct ! k) vin) [0..<planes])
              else concat (map (\<lambda>k. vin) [0..<planes]))"
proof -
  let ?zo = "length (zone_list d)"
  let ?npt = "prod_list (dimensions zin)"
  let ?d0 = "add_ordered_zone (zone_name zin) (take (rank zin) (dimensions zin) @ [planes]) d"
  have l: "\<forall>i. length (vals ?d0 i ?zo) = planes * ?npt"
    using assms(3) by (simp add: add_ordered_zone_simps mult.commute)
  have n: "variable_names ?d0 = variable_names d" by (simp add: add_ordered_zone_simps)
  have a: "\<forall>u \<in> set (pre @ v # post).
           \<exists>vin. values_by_name data_in zi u = Inr vin \<and> length vin = ?npt"
    using assms(4) unfolding assms(7) .
  have b: "set (pre @ v # post) \<subseteq> set (variable_names ?d0)"
    using assms(5) unfolding assms(7) n .
  have c: "\<forall>u \<in> set (pre @ v # post). \<forall>vy vz. map_of vv u = Some (vy, vz) \<longrightarrow>
           vy \<in> set (variable_names ?d0) \<and> vz \<in> set (variable_names ?d0)"
    using assms(6) unfolding assms(7) n .
  have e: "name_index (variable_names ?d0) t = Some j" using assms(9) unfolding n .
  from variable_loop_values [where d = ?d0 and zo = ?zo and planes = planes and npt = ?npt
      and data_in = data_in and zi = zi and vv = vv and ct = ct and st = st
      and pre = pre and v = v and post = post and vin = vin and t = t and j = j,
      OF l a b c assms(8) e assms(10) assms(11)]
  obtain d' where
    r: "efold (revolve_variable data_in zi ?zo ?npt planes ct st vv) (pre @ v # post) ?d0 = Inr d'"
    and p: "variable_names d' = variable_names ?d0" "zone_list d' = zone_list ?d0"
      "\<forall>i z. z \<noteq> ?zo \<longrightarrow> vals d' i z = vals ?d0 i z"
    and q: "vals d' j ?zo =
         (case map_of vv v of
            None \<Rightarrow> concat (map (\<lambda>k. vin) [0..<planes])
          | Some (a, b) \<Rightarrow>
              if t = b then concat (map (\<lambda>k. map (\<lambda>x. x * st ! k) vin) [0..<planes])
              else if t = a then concat (map (\<lambda>k. map (\<lambda>x. x * ct ! k) vin) [0..<planes])
              else concat (map (\<lambda>k. vin) [0..<planes]))"
    by blast
  have "revolve_zone data_in planes ct st vv (zi, zin) d = Inr d'"
    using assms(1,2) r by (simp add: revolve_zone_def assms(7))
  moreover have "length (zone_list d') = Suc ?zo" using p(2) by (simp add: add_ordered_zone_simps)
  moreover have "\<forall>i z. z \<noteq> ?zo \<longrightarrow> vals d' i z = vals d i z"
    using p(3) by (simp add: add_ordered_zone_simps)
  moreover have "variable_names d' = variable_names d" using p(1) n by simp
  ultimately show ?thesis using q by blast
qed

lemma zone_sublist_ok:
  assumes "well_formed data_in"
    and "\<forall>z \<in> set (zone_list data_in). ordered z \<and> rank z < 3
           \<and> prod_list (take (rank z) (dimensions z)) = num_points z"
    and "variable_names d = variable_names (build_variables (variable_names data_in) vv create_dataset)"
    and "\<forall>k < length xs. n + k < length (zone_list data_in) \<and> xs ! k = zone_list data_in ! (n + k)"
  shows "\<exists>d'. efold (revolve_zone data_in planes ct st vv) (enumerate n xs) d = Inr d'
     \<and> variable_names d' = variable_names d
     \<and> length (zone_list d') = length (zone_list d) + length xs
     \<and> (\<forall>i z. z < length (zone_list d) \<longrightarrow> vals d' i z = vals d i z)"
  using assms(3,4)
proof (induction xs arbitrary: n d)
  case Nil
  then show ?case by simp
next
  case (Cons x xs)
  from Cons.prems(2) have zi: "n < length (zone_list data_in)" and zin: "x = zone_list data_in ! n"
    by auto
  then have mem: "x \<in> set (zone_list data_in)" by simp
  with assms(2) have z: "ordered x" "rank x < 3"
    "prod_list (take (rank x) (dimensions x)) = prod_list (dimensions x)"
    by (auto simp: num_points_def)
  have a: "\<forall>v \<in> set (variable_names data_in).
         \<exists>vin. values_by_name data_in n v = Inr vin \<and> length vin = prod_list (dimensions x)"
    using input_values [OF assms(1) zi] zin by blast
  have b: "set (variable_names data_in) \<subseteq> set (variable_names d)"
    using Cons.prems(1) built_names(1) by auto
  have c: "\<forall>v \<in> set (variable_names data_in). \<forall>vy vz. map_of vv v = Some (vy, vz) \<longrightarrow>
         vy \<in> set (variable_names d) \<and> vz \<in> set (variable_names d)"
    using Cons.prems(1) built_names(2) by auto
  from revolve_zone_ok [where data_in = data_in and d = d and vv = vv and zi = n and zin = x
      and planes = planes and ct = ct and st = st, OF z a b c]
  obtain d1 where r: "revolve_zone data_in planes ct st vv (n, x) d = Inr d1"
    and n1: "variable_names d1 = variable_names d"
    and l1: "length (zone_list d1) = Suc (length (zone_list d))"
    and o1: "\<forall>i z. z \<noteq> length (zone_list d) \<longrightarrow> vals d1 i z = vals d i z"
    by blast
  have p1: "variable_names d1 = variable_names (build_variables (variable_names data_in) vv create_dataset)"
    using n1 Cons.prems(1) by simp
  have p2: "\<forall>k < length xs. Suc n + k < length (zone_list data_in)
              \<and> xs ! k = zone_list data_in ! (Suc n + k)"
  proof (intro allI impI)
    fix k assume "k < length xs"
    then have "Suc k < length (x # xs)" by simp
    from Cons.prems(2) [rule_format, OF this]
    show "Suc n + k < length (zone_list data_in) \<and> xs ! k = zone_list data_in ! (Suc n + k)"
      by simp
  qed
  from Cons.IH [OF p1 p2] obtain d' where
    r': "efold (revolve_zone data_in planes ct st vv) (enumerate (Suc n) xs) d1 = Inr d'"
    and n': "variable_names d' = variable_names d1"
    and l': "length (zone_list d') = length (zone_list d1) + length xs"
    and o': "\<forall>i z. z < length (zone_list d1) \<longrightarrow> vals d' i z = vals d1 i z"
    by blast
  have "efold (revolve_zone data_in planes ct st vv) (enumerate n (x # xs)) d = Inr d'"
    using r r' by simp
  moreover have "variable_names d' = variable_names d" using n' n1 by simp
  moreover have "length (zone_list d') = length (zone_list d) + length (x # xs)"
    using l' l1 by simp
  moreover have "\<forall>i z. z < length (zone_list d) \<longrightarrow> vals d' i z = vals d i z"
    using o' o1 l1 by simp
  ultimately show ?case by blast
qed

lemma linspace_nth:
  assumes "k < n"
  shows "linspace 0 stop n ! k = real k * (stop / real (n - 1))"
proof (cases "k = n - 1")
  case True
  show ?thesis
  proof (cases "1 < n")
    case True
    with \<open>k = n - 1\<close> show ?thesis by (simp add: linspace_def Let_def)
  next
    case False
    with assms have "n = 1" "k = 0" by auto
    then show ?thesis by (simp add: linspace_def Let_def)
  qed
next
  case False
  with assms have "1 < n" by auto
  with assms False show ?thesis by (simp add: linspace_def Let_def)
qed

lemma length_linspace: "length (linspace a b n) = n"
  by (simp add: linspace_def Let_def)

lemma plane_block_concat:
  assumes "\<forall>i < n. length (blk i) = npt" "k < n"
  shows "plane_block npt k (concat (map blk [0..<n])) = blk k"
  using assms
proof (induction n)
  case 0
  then show ?case by simp
next
  case (Suc n)
  have len: "length (concat (map blk [0..<n])) = n * npt"
    using Suc.prems(1) by (intro concat_blocks_length) simp
  show ?case
  proof (cases "k = n")
    case True
    then show ?thesis using len Suc.prems(1) by (simp add: plane_block_def)
  next
    case False
    with Suc.prems have kn: "k < n" by simp
    then have ih: "plane_block npt k (concat (map blk [0..<n])) = blk k"
      using Suc by simp
    have "Suc k \<le> n" using kn by simp
    then have "Suc k * npt \<le> n * npt" by (rule mult_le_mono1)
    then have "npt \<le> n * npt - k * npt" by simp
    then have "take npt (drop (k * npt) (concat (map blk [0..<n]) @ blk n))
             = take npt (drop (k * npt) (concat (map blk [0..<n])))"
      using len by simp
    then show ?thesis using ih by (simp add: plane_block_def)
  qed
qed

lemma zone_loop_values:
  assumes "well_formed data_in"
    and "\<forall>z \<in> set (zone_list data_in). ordered z \<and> rank z < 3
           \<and> prod_list (take (rank z) (dimensions z)) = num_points z"
    and "zi < length (zone_list data_in)"
    and "variable_names data_in = pre @ v # post"
    and "values_by_name data_in zi v = Inr vin"
    and "name_index (variable_names (build_variables (variable_names data_in) vv create_dataset)) t
           = Some j"
    and "t = v \<or> (\<exists>a b. map_of vv v = Some (a, b) \<and> (t = a \<or> t = b))"
    and "\<forall>u \<in> set post. u \<noteq> t \<and> (\<forall>a b. map_of vv u = Some (a, b) \<longrightarrow> a \<noteq> t \<and> b \<noteq> t)"
  shows "\<exists>d'. efold (revolve_zone data_in planes ct st vv) (enumerate 0 (zone_list data_in))
                 (build_variables (variable_names data_in) vv create_dataset) = Inr d'
     \<and> variable_names d'
         = variable_names (build_variables (variable_names data_in) vv create_dataset)
     \<and> vals d' j zi =
         (case map_of vv v of
            None \<Rightarrow> concat (map (\<lambda>k. vin) [0..<planes])
          | Some (a, b) \<Rightarrow>
              if t = b then concat (map (\<lambda>k. map (\<lambda>x. x * st ! k) vin) [0..<planes])
              else if t = a then concat (map (\<lambda>k. map (\<lambda>x. x * ct ! k) vin) [0..<planes])
              else concat (map (\<lambda>k. vin) [0..<planes]))"
proof -
  let ?zs = "zone_list data_in"
  let ?d0 = "build_variables (variable_names data_in) vv create_dataset"
  let ?F = "revolve_zone data_in planes ct st vv"
  let ?zin = "?zs ! zi"
  have split: "enumerate 0 ?zs
      = enumerate 0 (take zi ?zs) @ (zi, ?zin) # enumerate (Suc zi) (drop (Suc zi) ?zs)"
  proof -
    have "?zs = take zi ?zs @ ?zin # drop (Suc zi) ?zs"
      using assms(3) by (simp add: id_take_nth_drop [symmetric])
    then have "enumerate 0 ?zs = enumerate 0 (take zi ?zs @ ?zin # drop (Suc zi) ?zs)" by simp
    also have "\<dots> = enumerate 0 (take zi ?zs)
        @ enumerate (0 + length (take zi ?zs)) (?zin # drop (Suc zi) ?zs)"
      by (rule enumerate_append_eq)
    also have "\<dots> = enumerate 0 (take zi ?zs) @ (zi, ?zin) # enumerate (Suc zi) (drop (Suc zi) ?zs)"
      using assms(3) by (simp add: min_def)
    finally show ?thesis .
  qed
  \<comment> \<open>the zones before \<open>zi\<close>\<close>
  have pre_idx: "\<forall>k < length (take zi ?zs). 0 + k < length ?zs \<and> take zi ?zs ! k = ?zs ! (0 + k)"
    using assms(3) by simp
  from zone_sublist_ok [OF assms(1,2) refl pre_idx, where planes = planes and ct = ct and st = st]
  obtain d1 where r1: "efold ?F (enumerate 0 (take zi ?zs)) ?d0 = Inr d1"
    and n1: "variable_names d1 = variable_names ?d0"
    and l1: "length (zone_list d1) = length (zone_list ?d0) + length (take zi ?zs)"
    by blast
  have len1: "length (zone_list d1) = zi"
    using l1 assms(3) by (simp add: build_variables_names(2))
  \<comment> \<open>the zone \<open>zi\<close>\<close>
  have mem: "?zin \<in> set ?zs" using assms(3) by simp
  with assms(2) have z: "ordered ?zin" "rank ?zin < 3"
    "prod_list (take (rank ?zin) (dimensions ?zin)) = prod_list (dimensions ?zin)"
    by (auto simp: num_points_def)
  have a: "\<forall>u \<in> set (variable_names data_in).
         \<exists>vin. values_by_name data_in zi u = Inr vin \<and> length vin = prod_list (dimensions ?zin)"
    using input_values [OF assms(1,3)] by blast
  have b: "set (variable_names data_in) \<subseteq> set (variable_names d1)"
    using n1 built_names(1) by auto
  have c: "\<forall>u \<in> set (variable_names data_in). \<forall>vy vz. map_of vv u = Some (vy, vz) \<longrightarrow>
         vy \<in> set (variable_names d1) \<and> vz \<in> set (variable_names d1)"
    using n1 built_names(2) by auto
  have e: "name_index (variable_names d1) t = Some j" using assms(6) n1 by simp
  from revolve_zone_values [where data_in = data_in and d = d1 and vv = vv and zi = zi
      and zin = ?zin and planes = planes and ct = ct and st = st and pre = pre and v = v
      and post = post and vin = vin and t = t and j = j,
      OF z a b c assms(4) assms(5) e assms(7) assms(8)]
  obtain d2 where r2: "?F (zi, ?zin) d1 = Inr d2"
    and n2: "variable_names d2 = variable_names d1"
    and l2: "length (zone_list d2) = Suc (length (zone_list d1))"
    and q2: "vals d2 j (length (zone_list d1)) =
         (case map_of vv v of
            None \<Rightarrow> concat (map (\<lambda>k. vin) [0..<planes])
          | Some (a, b) \<Rightarrow>
              if t = b then concat (map (\<lambda>k. map (\<lambda>x. x * st ! k) vin) [0..<planes])
              else if t = a then concat (map (\<lambda>k. map (\<lambda>x. x * ct ! k) vin) [0..<planes])
              else concat (map (\<lambda>k. vin) [0..<planes]))"
    by blast
  \<comment> \<open>the zones after \<open>zi\<close>\<close>
  have n2': "variable_names d2 = variable_names ?d0" using n2 n1 by simp
  have post_idx: "\<forall>k < length (drop (Suc zi) ?zs).
       Suc zi + k < length ?zs \<and> drop (Suc zi) ?zs ! k = ?zs ! (Suc zi + k)"
    using assms(3) by auto
  from zone_sublist_ok [OF assms(1,2) n2' post_idx, where planes = planes and ct = ct and st = st]
  obtain d3 where r3: "efold ?F (enumerate (Suc zi) (drop (Suc zi) ?zs)) d2 = Inr d3"
    and n3: "variable_names d3 = variable_names d2"
    and o3: "\<forall>i z. z < length (zone_list d2) \<longrightarrow> vals d3 i z = vals d2 i z"
    by blast
  have "efold ?F (enumerate 0 ?zs) ?d0 = Inr d3"
    unfolding split by (simp add: efold_append r1 r2 r3)
  moreover have "variable_names d3 = variable_names ?d0" using n3 n2' by simp
  moreover have "vals d3 j zi = vals d2 j zi" using o3 l2 len1 by simp
  ultimately show ?thesis using q2 len1 by auto
qed


end
